theory Spec2Isabelle
  imports Main
begin

section \<open>Python values used by main.py\<close>

text \<open>
  A Python \<open>str\<close> is a sequence of Unicode code points. A character is modelled by
  its code point, a string by the list of its characters. ASCII literals of the source
  are written \<open>ascii ''...''\<close>; the other literals are given by their code points.
\<close>

type_synonym pychar = nat
type_synonym pystr = "pychar list"

definition ascii :: "string \<Rightarrow> pystr" where
  "ascii cs = map of_char cs"

text \<open>
  The exceptions the modelled functions can raise: \<open>d[k]\<close> on a missing key and
  \<open>xs[0]\<close> on an empty list.
\<close>

datatype error = KeyError pystr | IndexError

subsection \<open>str.strip and str.split\<close>

text \<open>
  \<open>str.isspace\<close> of one character, as CPython's table of whitespace code points has it.
\<close>

definition isspace :: "pychar \<Rightarrow> bool" where
  "isspace c \<longleftrightarrow>
     (0x09 \<le> c \<and> c \<le> 0x0D) \<or> (0x1C \<le> c \<and> c \<le> 0x20) \<or> c = 0x85 \<or> c = 0xA0 \<or>
     c = 0x1680 \<or> (0x2000 \<le> c \<and> c \<le> 0x200A) \<or> c = 0x2028 \<or> c = 0x2029 \<or>
     c = 0x202F \<or> c = 0x205F \<or> c = 0x3000"

text \<open>\<open>s.strip()\<close>: the leading and the trailing whitespace characters are removed.\<close>

definition strip :: "pystr \<Rightarrow> pystr" where
  "strip s = rev (dropWhile isspace (rev (dropWhile isspace s)))"

text \<open>
  \<open>s.split(sep)\<close> for a separator of one character (the source splits on
  \<open>'\n'\<close> and on \<open>'|'\<close> only): the pieces between the occurrences of the separator,
  empty pieces included, so the result is never the empty list.
\<close>

fun split :: "pystr \<Rightarrow> pychar \<Rightarrow> pystr list" where
  "split [] sep = [[]]"
| "split (c # cs) sep =
     (if c = sep then [] # split cs sep
      else (case split cs sep of
              [] \<Rightarrow> [[c]]
            | w # ws \<Rightarrow> (c # w) # ws))"

definition NEWLINE :: pychar where
  "NEWLINE = 0x0A"

definition PIPE :: pychar where
  "PIPE = 0x7C"

subsection \<open>Dictionaries\<close>

text \<open>
  A Python \<open>dict\<close> keeps its keys distinct and in insertion order. It is modelled by
  the list of its items in that order. Storing under a key that is present replaces
  the value and keeps the key's position; storing under a new key appends the item.
\<close>

type_synonym ('k, 'v) pydict = "('k \<times> 'v) list"

fun dict_set :: "('k, 'v) pydict \<Rightarrow> 'k \<Rightarrow> 'v \<Rightarrow> ('k, 'v) pydict" where
  "dict_set [] k v = [(k, v)]"
| "dict_set ((k', v') # d) k v =
     (if k' = k then (k', v) # d else (k', v') # dict_set d k v)"

text \<open>\<open>k in d\<close>.\<close>

definition dict_contains :: "('k, 'v) pydict \<Rightarrow> 'k \<Rightarrow> bool" where
  "dict_contains d k \<longleftrightarrow> map_of d k \<noteq> None"

text \<open>\<open>d[k]\<close>, which raises \<open>KeyError\<close> when the key is missing.\<close>

definition getitem :: "(pystr, 'v) pydict \<Rightarrow> pystr \<Rightarrow> error + 'v" where
  "getitem d k = (case map_of d k of None \<Rightarrow> Inl (KeyError k) | Some v \<Rightarrow> Inr v)"

text \<open>
  The dict comprehension \<open>{k: v for k, v in pairs}\<close>: the pairs are stored one after
  the other into a dictionary that starts empty.
\<close>

definition dict_comprehension :: "('k \<times> 'v) list \<Rightarrow> ('k, 'v) pydict" where
  "dict_comprehension pairs = foldl (\<lambda>d (k, v). dict_set d k v) [] pairs"

section \<open>parse_squeue_output\<close>

type_synonym job = "(pystr, pystr) pydict"

text \<open>
  \<^verbatim>\<open>
  def parse_squeue_output(output: str) -> Job:
      lines = output.strip().split('\n')
      header = lines[0].split('|')
      jobs = []
      for l in lines[1:]:
          job = {k: v for k, v in zip(header, l.split('|'))}
          jobs.append(job)
      return jobs
  \<close>
  \<open>lines[0]\<close> raises \<open>IndexError\<close> on an empty list; the loop over \<open>lines[1:]\<close>
  appends one dictionary per line.
\<close>

definition parse_squeue_output :: "pystr \<Rightarrow> error + job list" where
  "parse_squeue_output output =
     (let lines = split (strip output) NEWLINE in
      case lines of
        [] \<Rightarrow> Inl IndexError
      | l0 # rest \<Rightarrow>
          (let header = split l0 PIPE in
           Inr (map (\<lambda>l. dict_comprehension (zip header (split l PIPE))) rest)))"

section \<open>The configuration\<close>

text \<open>
  \<open>config\<close> is the dictionary read from the configuration file. The functions below
  read its entries \<open>'project_map'\<close> (account code to label) and \<open>'user_map'\<close>
  (user id to label), both dictionaries of strings.
\<close>

record config =
  project_map :: "(pystr, pystr) pydict"
  user_map :: "(pystr, pystr) pydict"

section \<open>get_formatters\<close>

text \<open>The full-width colon \<open>U+FF1A\<close> that ends every display name.\<close>

definition COLON :: pystr where
  "COLON = [0xFF1A]"

text \<open>
  \<^verbatim>\<open>
  def get_simple_formmatter(display_name: str, field_name: str):
      return lambda j: f'{display_name}<U+FF1A>{j[field_name]}'
  \<close>
\<close>

definition get_simple_formmatter :: "pystr \<Rightarrow> pystr \<Rightarrow> job \<Rightarrow> error + pystr" where
  "get_simple_formmatter display_name field_name j =
     (case getitem j field_name of
        Inl e \<Rightarrow> Inl e
      | Inr v \<Rightarrow> Inr (display_name @ COLON @ v))"

text \<open>
  \<^verbatim>\<open>
  def project_formatter(job: Job):
      project_map = {k.upper(): v for k, v in config['project_map'].items()} .copy()
      x = job['ACCOUNT'].upper()
      if x in project_map:
          x = f'{x}({project_map[x]})'
      x = f'<U+1F4DC> <U+8A08><U+756B>ID<U+FF1A>{x}'
      return x
  \<close>
  \<open>str.upper\<close> is Python's Unicode case mapping; the model takes it as the parameter
  \<open>upper\<close>, so that what is proved holds whatever the mapping is.
\<close>

definition PROJECT_ID :: pystr where
  "PROJECT_ID = [0x1F4DC] @ ascii '' '' @ [0x8A08, 0x756B] @ ascii ''ID'' @ COLON"

definition project_formatter :: "(pystr \<Rightarrow> pystr) \<Rightarrow> config \<Rightarrow> job \<Rightarrow> error + pystr" where
  "project_formatter upper config job =
     (let pm = dict_comprehension (map (\<lambda>(k, v). (upper k, v)) (project_map config)) in
      case getitem job (ascii ''ACCOUNT'') of
        Inl e \<Rightarrow> Inl e
      | Inr a \<Rightarrow>
          (let x = upper a in
           if dict_contains pm x then
             (case getitem pm x of
                Inl e \<Rightarrow> Inl e
              | Inr label \<Rightarrow> Inr (PROJECT_ID @ x @ ascii ''('' @ label @ ascii '')''))
           else Inr (PROJECT_ID @ x)))"

text \<open>
  \<^verbatim>\<open>
  def user_formatter(job: Job):
      user_map = config['user_map']
      x = job['USER']
      if x in user_map:
          x = f'{x}({user_map[x]})'
      x = f'<U+1F92A> <U+4F7F><U+7528><U+8005>ID<U+FF1A>{x}'
      return x
  \<close>
\<close>

definition USER_ID :: pystr where
  "USER_ID = [0x1F92A] @ ascii '' '' @ [0x4F7F, 0x7528, 0x8005] @ ascii ''ID'' @ COLON"

definition user_formatter :: "config \<Rightarrow> job \<Rightarrow> error + pystr" where
  "user_formatter config job =
     (let um = user_map config in
      case getitem job (ascii ''USER'') of
        Inl e \<Rightarrow> Inl e
      | Inr x \<Rightarrow>
          if dict_contains um x then
            (case getitem um x of
               Inl e \<Rightarrow> Inl e
             | Inr label \<Rightarrow> Inr (USER_ID @ x @ ascii ''('' @ label @ ascii '')''))
          else Inr (USER_ID @ x))"

text \<open>The display names of the six simple formatters, as code points.\<close>

definition JOB_ID_NAME :: pystr where
  "JOB_ID_NAME = [0x1FAAA] @ ascii '' '' @ [0x4EFB, 0x52D9] @ ascii ''ID''"

definition JOB_NAME_NAME :: pystr where
  "JOB_NAME_NAME = [0x1F6E0, 0xFE0F] @ ascii '' '' @ [0x4EFB, 0x52D9, 0x540D, 0x7A31]"

definition PARTITION_NAME :: pystr where
  "PARTITION_NAME = [0x2693] @ ascii '' '' @ [0x5206, 0x5340, 0x540D, 0x7A31]"

definition NODES_NAME :: pystr where
  "NODES_NAME = [0x1F5A5, 0xFE0F] @ ascii '' '' @ [0x7BC0, 0x9EDE, 0x6578, 0x91CF]"

definition START_TIME_NAME :: pystr where
  "START_TIME_NAME = [0x23F1] @ ascii '' '' @ [0x958B, 0x59CB, 0x6642, 0x9593]"

definition RUN_TIME_NAME :: pystr where
  "RUN_TIME_NAME = [0x23F3] @ ascii '' '' @ [0x904B, 0x884C, 0x6642, 0x9593]"

definition get_formatters :: "(pystr \<Rightarrow> pystr) \<Rightarrow> config \<Rightarrow> (job \<Rightarrow> error + pystr) list" where
  "get_formatters upper config =
     [get_simple_formmatter JOB_ID_NAME (ascii ''JOBID''),
      get_simple_formmatter JOB_NAME_NAME (ascii ''NAME''),
      get_simple_formmatter PARTITION_NAME (ascii ''PARTITION''),
      get_simple_formmatter NODES_NAME (ascii ''NODES''),
      get_simple_formmatter START_TIME_NAME (ascii ''START_TIME''),
      get_simple_formmatter RUN_TIME_NAME (ascii ''TIME''),
      project_formatter upper config,
      user_formatter config]"

section \<open>time.strftime\<close>

text \<open>
  \<open>time.strftime(format)\<close> formats the local time of the call. The time read from
  the clock is the argument \<open>now\<close> of the model, a \<open>struct_time\<close> with the fields the
  format of the source uses.
\<close>

record struct_time =
  tm_year :: nat
  tm_mon :: nat
  tm_mday :: nat
  tm_hour :: nat
  tm_min :: nat
  tm_sec :: nat

definition digit :: "nat \<Rightarrow> pychar" where
  "digit n = 0x30 + n mod 10"

text \<open>The decimal numeral of a number, and its last two digits (zero-padded).\<close>

fun decimal :: "nat \<Rightarrow> pystr" where
  "decimal n = (if n < 10 then [digit n] else decimal (n div 10) @ [digit n])"

definition two_digits :: "nat \<Rightarrow> pystr" where
  "two_digits n = [digit (n div 10), digit n]"

text \<open>
  The conversion specifications the source uses: \<open>%Y\<close> is the year as a decimal number,
  \<open>%m\<close>, \<open>%d\<close>, \<open>%H\<close>, \<open>%M\<close> and \<open>%S\<close> are two-digit decimal numbers. Any other
  specification is copied as it is.
\<close>

definition directive :: "pychar \<Rightarrow> struct_time \<Rightarrow> pystr" where
  "directive d t =
     (if [d] = ascii ''Y'' then decimal (tm_year t)
      else if [d] = ascii ''m'' then two_digits (tm_mon t)
      else if [d] = ascii ''d'' then two_digits (tm_mday t)
      else if [d] = ascii ''H'' then two_digits (tm_hour t)
      else if [d] = ascii ''M'' then two_digits (tm_min t)
      else if [d] = ascii ''S'' then two_digits (tm_sec t)
      else ascii ''%'' @ [d])"

fun strftime :: "pystr \<Rightarrow> struct_time \<Rightarrow> pystr" where
  "strftime [] t = []"
| "strftime [c] t = [c]"
| "strftime (c # d # fmt) t =
     (if [c] = ascii ''%'' then directive d t @ strftime fmt t
      else c # strftime (d # fmt) t)"

section \<open>itertools.groupby\<close>

text \<open>
  \<open>groupby(iterable, key)\<close> yields one pair \<open>(k, group)\<close> for every maximal run of
  consecutive elements with equal key. It computes the key of an element when it
  reaches the element, so a key function that raises stops the iteration there: the
  groups of the elements before it have been yielded, and the exception is raised once
  the loop asks for more. The model returns the groups yielded and the pending
  exception, if there is one.
\<close>

fun groupby :: "'a list \<Rightarrow> ('a \<Rightarrow> error + 'k) \<Rightarrow> ('k \<times> 'a list) list \<times> error option" where
  "groupby [] key = ([], None)"
| "groupby (x # xs) key =
     (case key x of
        Inl e \<Rightarrow> ([], Some e)
      | Inr k \<Rightarrow>
          (case groupby xs key of
             ([], err) \<Rightarrow> ([(k, [x])], err)
           | ((k', g) # gs, err) \<Rightarrow>
               if k' = k then ((k, x # g) # gs, err)
               else ((k, [x]) # (k', g) # gs, err)))"

section \<open>get_blocks\<close>

text \<open>
  The blocks of the chat message are dictionaries with a \<open>"type"\<close> entry. A text object
  is \<open>{"type": "plain_text", "text": t, "emoji": e}\<close> or \<open>{"type": "mrkdwn", "text": t}\<close>;
  a block is a header with a text, a section with a text, a section with a list of
  fields, or a divider.
\<close>

datatype text_object = PlainText pystr bool | Mrkdwn pystr

datatype block =
    Header text_object
  | Section text_object
  | SectionFields "text_object list"
  | Divider

definition TITLE :: pystr where
  "TITLE = [0x1F4CB] @ ascii '' TWCC HPC '' @ [0x4EFB, 0x52D9, 0x4F8B, 0x884C, 0x6AA2, 0x67E5]"

definition CHECK_TIME :: pystr where
  "CHECK_TIME = [0x231A] @ ascii '' '' @ [0x6AA2, 0x67E5, 0x6642, 0x9593] @ COLON @ ascii '' *''"

definition USER_ICON :: pystr where
  "USER_ICON = [0x1F92A] @ ascii '' *''"

definition HAS_JOBS :: pystr where
  "HAS_JOBS = ascii ''* '' @
     [0x6709, 0x4EE5, 0x4E0B, 0x4EFB, 0x52D9, 0x6B63, 0x5728, 0x904B, 0x884C] @ COLON"

definition JOB_ICON :: pystr where
  "JOB_ICON = [0x1F6E0, 0xFE0F] @ ascii '' *''"

definition UNNAMED :: pystr where
  "UNNAMED = ascii ''_'' @ [0x672A, 0x547D, 0x540D] @ ascii ''_''"

text \<open>
  The list comprehension over \<open>formatters\<close>: the formatters are applied in order, and
  the first exception ends the evaluation.
\<close>

fun apply_formatters :: "(job \<Rightarrow> error + pystr) list \<Rightarrow> job \<Rightarrow> error + text_object list" where
  "apply_formatters [] job = Inr []"
| "apply_formatters (formatter # formatters) job =
     (case formatter job of
        Inl e \<Rightarrow> Inl e
      | Inr t \<Rightarrow>
          (case apply_formatters formatters job of
             Inl e \<Rightarrow> Inl e
           | Inr texts \<Rightarrow> Inr (PlainText t True # texts)))"

text \<open>
  The inner loop \<open>for job in job_group\<close>: the blocks it appends, a section with the
  job's name (\<open>job['NAME'] or '_..._'\<close>: the placeholder when the name is the empty
  string) and a section with the fields.
\<close>

fun job_blocks :: "(job \<Rightarrow> error + pystr) list \<Rightarrow> job list \<Rightarrow> error + block list" where
  "job_blocks formatters [] = Inr []"
| "job_blocks formatters (job # job_group) =
     (case getitem job (ascii ''NAME'') of
        Inl e \<Rightarrow> Inl e
      | Inr name \<Rightarrow>
          (case apply_formatters formatters job of
             Inl e \<Rightarrow> Inl e
           | Inr texts \<Rightarrow>
               (case job_blocks formatters job_group of
                  Inl e \<Rightarrow> Inl e
                | Inr blocks \<Rightarrow>
                    Inr (Section (Mrkdwn (JOB_ICON @ (if name = [] then UNNAMED else name) @ ascii ''*''))
                         # SectionFields texts # blocks))))"

text \<open>
  The outer loop \<open>for user, job_group in groupby(...)\<close>: per group a section with the
  user (and the label of \<open>user_map\<close> when it has one), the blocks of the jobs, and a
  divider.
\<close>

fun group_blocks ::
  "(pystr, pystr) pydict \<Rightarrow> (job \<Rightarrow> error + pystr) list \<Rightarrow> (pystr \<times> job list) list \<Rightarrow>
   error + block list" where
  "group_blocks um formatters [] = Inr []"
| "group_blocks um formatters ((user, job_group) # groups) =
     (case (if dict_contains um user
            then (case getitem um user of
                    Inl e \<Rightarrow> Inl e
                  | Inr label \<Rightarrow> Inr (user @ ascii ''('' @ label @ ascii '')''))
            else Inr user) of
        Inl e \<Rightarrow> Inl e
      | Inr user' \<Rightarrow>
          (case job_blocks formatters job_group of
             Inl e \<Rightarrow> Inl e
           | Inr jblocks \<Rightarrow>
               (case group_blocks um formatters groups of
                  Inl e \<Rightarrow> Inl e
                | Inr blocks \<Rightarrow>
                    Inr (Section (Mrkdwn (USER_ICON @ user' @ HAS_JOBS)) # jblocks @ Divider # blocks))))"

text \<open>
  \<open>get_blocks(jobs, config)\<close>: the three leading blocks, then the blocks of the loop
  over the groups. An exception of the key function \<open>lambda x: x['USER']\<close> is raised
  after the groups before it have been processed.
\<close>

definition get_blocks ::
  "(pystr \<Rightarrow> pystr) \<Rightarrow> struct_time \<Rightarrow> job list \<Rightarrow> config \<Rightarrow> error + block list" where
  "get_blocks upper now jobs config =
     (let um = user_map config;
          formatters = get_formatters upper config;
          blocks =
            [Header (PlainText TITLE True),
             Section (Mrkdwn (CHECK_TIME @ strftime (ascii ''%Y/%m/%d %H:%M:%S'') now @ ascii ''*'')),
             Divider]
      in case groupby jobs (\<lambda>x. getitem x (ascii ''USER'')) of
           (groups, err) \<Rightarrow>
             (case group_blocks um formatters groups of
                Inl e \<Rightarrow> Inl e
              | Inr appended \<Rightarrow>
                  (case err of
                     Some e \<Rightarrow> Inl e
                   | None \<Rightarrow> Inr (blocks @ appended))))"

section \<open>Notions used to state the properties\<close>

subsection \<open>Tables as text\<close>

text \<open>
  \<open>sep.join(xs)\<close>, and the text of a table: the header line and the data lines, the
  fields of a line joined by \<open>'|'\<close> and the lines joined by line breaks. A field of a
  table contains neither separator.
\<close>

fun join :: "pychar \<Rightarrow> pystr list \<Rightarrow> pystr" where
  "join sep [] = []"
| "join sep [x] = x"
| "join sep (x # y # ys) = x @ sep # join sep (y # ys)"

definition table_text :: "pystr list \<Rightarrow> pystr list list \<Rightarrow> pystr" where
  "table_text header rows = join NEWLINE (map (join PIPE) (header # rows))"

definition plain_field :: "pystr \<Rightarrow> bool" where
  "plain_field f \<longleftrightarrow> PIPE \<notin> set f \<and> NEWLINE \<notin> set f"

text \<open>
  A table: a header and data lines of at least one field each (a line of text always
  has one), all fields free of separators.
\<close>

definition table :: "pystr list \<Rightarrow> pystr list list \<Rightarrow> bool" where
  "table header rows \<longleftrightarrow>
     header \<noteq> [] \<and> list_all plain_field header \<and>
     list_all (\<lambda>row. row \<noteq> [] \<and> list_all plain_field row) rows"

subsection \<open>Groups\<close>

text \<open>
  The position of the group that holds the \<open>i\<close>-th element of the sequence the groups
  were formed from.
\<close>

fun group_of :: "('k \<times> 'a list) list \<Rightarrow> nat \<Rightarrow> nat" where
  "group_of [] i = 0"
| "group_of ((k, g) # gs) i =
     (if i < length g then 0 else Suc (group_of gs (i - length g)))"

definition USER_key :: "job \<Rightarrow> error + pystr" where
  "USER_key x = getitem x (ascii ''USER'')"

subsection \<open>The report, as the specification describes it\<close>

text \<open>The fields a job needs for the report to be built.\<close>

definition report_fields :: "pystr list" where
  "report_fields =
     [ascii ''USER'', ascii ''NAME'', ascii ''JOBID'', ascii ''PARTITION'', ascii ''NODES'',
      ascii ''START_TIME'', ascii ''TIME'', ascii ''ACCOUNT'']"

definition complete :: "job \<Rightarrow> bool" where
  "complete job \<longleftrightarrow> list_all (dict_contains job) report_fields"

text \<open>The six simple formatters: their display names and the fields they read.\<close>

definition simple_formatters :: "(pystr \<times> pystr) list" where
  "simple_formatters =
     [(JOB_ID_NAME, ascii ''JOBID''), (JOB_NAME_NAME, ascii ''NAME''),
      (PARTITION_NAME, ascii ''PARTITION''), (NODES_NAME, ascii ''NODES''),
      (START_TIME_NAME, ascii ''START_TIME''), (RUN_TIME_NAME, ascii ''TIME'')]"

text \<open>The value of a field that is present.\<close>

definition field :: "job \<Rightarrow> pystr \<Rightarrow> pystr" where
  "field job k = (case map_of job k of None \<Rightarrow> [] | Some v \<Rightarrow> v)"

text \<open>
  The label lookup of the specification: the identifier, followed by its label in
  parentheses when the table has one. The table of the projects is searched for the
  last entry whose upper-cased key is the identifier.
\<close>

definition with_label :: "pystr \<Rightarrow> pystr option \<Rightarrow> pystr" where
  "with_label x label =
     (case label of None \<Rightarrow> x | Some l \<Rightarrow> x @ ascii ''('' @ l @ ascii '')'')"

definition project_label :: "(pystr \<Rightarrow> pystr) \<Rightarrow> config \<Rightarrow> pystr \<Rightarrow> pystr option" where
  "project_label upper config x =
     map_of (rev (map (\<lambda>(k, v). (upper k, v)) (project_map config))) x"

text \<open>The three blocks every report starts with, as \<open>get_blocks\<close> builds them.\<close>

definition leading_blocks :: "struct_time \<Rightarrow> block list" where
  "leading_blocks now =
     [Header (PlainText TITLE True),
      Section (Mrkdwn (CHECK_TIME @ strftime (ascii ''%Y/%m/%d %H:%M:%S'') now @ ascii ''*'')),
      Divider]"



definition spec_field_list :: "(pystr \<Rightarrow> pystr) \<Rightarrow> config \<Rightarrow> job \<Rightarrow> text_object list" where
  "spec_field_list upper config job =
     map (\<lambda>t. PlainText t True)
       [JOB_ID_NAME @ COLON @ field job (ascii ''JOBID''),
        JOB_NAME_NAME @ COLON @ field job (ascii ''NAME''),
        PARTITION_NAME @ COLON @ field job (ascii ''PARTITION''),
        NODES_NAME @ COLON @ field job (ascii ''NODES''),
        START_TIME_NAME @ COLON @ field job (ascii ''START_TIME''),
        RUN_TIME_NAME @ COLON @ field job (ascii ''TIME''),
        PROJECT_ID @
          with_label (upper (field job (ascii ''ACCOUNT'')))
            (project_label upper config (upper (field job (ascii ''ACCOUNT'')))),
        USER_ID @
          with_label (field job (ascii ''USER''))
            (map_of (user_map config) (field job (ascii ''USER'')))]"

definition spec_job :: "(pystr \<Rightarrow> pystr) \<Rightarrow> config \<Rightarrow> job \<Rightarrow> block list" where
  "spec_job upper config job =
     [Section (Mrkdwn (JOB_ICON @
         (if field job (ascii ''NAME'') = [] then UNNAMED else field job (ascii ''NAME'')) @
         ascii ''*'')),
      SectionFields (spec_field_list upper config job)]"

definition spec_user_group :: "(pystr \<Rightarrow> pystr) \<Rightarrow> config \<Rightarrow> pystr \<times> job list \<Rightarrow> block list" where
  "spec_user_group upper config ug =
     Section (Mrkdwn (USER_ICON @ with_label (fst ug) (map_of (user_map config) (fst ug)) @ HAS_JOBS))
     # concat (map (spec_job upper config) (snd ug)) @ [Divider]"


definition is_job_fields :: "block \<Rightarrow> bool" where
  "is_job_fields b = (case b of SectionFields texts \<Rightarrow> True | _ \<Rightarrow> False)"

subsection \<open>Sample data\<close>

text \<open>An upper-casing of the ASCII letters, to instantiate \<open>upper\<close> on examples.\<close>

definition ascii_upper :: "pystr \<Rightarrow> pystr" where
  "ascii_upper s = map (\<lambda>c. if 0x61 \<le> c \<and> c \<le> 0x7A then c - 0x20 else c) s"

definition sample_time :: struct_time where
  "sample_time =
     \<lparr>tm_year = 2024, tm_mon = 3, tm_mday = 9, tm_hour = 0, tm_min = 5, tm_sec = 59\<rparr>"

definition sample_output :: pystr where
  "sample_output =
     ascii ''JOBID|NAME|USER'' @ [NEWLINE] @ ascii ''1|build|alice'' @ [NEWLINE] @
     ascii ''2||bob'' @ [NEWLINE]"

definition irregular_output :: pystr where
  "irregular_output = ascii ''A|B'' @ [NEWLINE] @ ascii ''1|2|3'' @ [NEWLINE] @ ascii ''1''"

definition duplicate_output :: pystr where
  "duplicate_output = ascii ''A|A|B'' @ [NEWLINE] @ ascii ''1|2|3''"

definition sample_job :: "string \<Rightarrow> string \<Rightarrow> string \<Rightarrow> string \<Rightarrow> job" where
  "sample_job jobid name user account =
     [(ascii ''JOBID'', ascii jobid), (ascii ''NAME'', ascii name), (ascii ''USER'', ascii user),
      (ascii ''ACCOUNT'', ascii account), (ascii ''PARTITION'', ascii ''gp4d''),
      (ascii ''NODES'', ascii ''1''), (ascii ''START_TIME'', ascii ''2024-03-08T10:00:00''),
      (ascii ''TIME'', ascii ''1:00'')]"

definition sample_config :: config where
  "sample_config =
     \<lparr>project_map = [(ascii ''phys01'', ascii ''Physics'')],
      user_map = [(ascii ''bob'', ascii ''Bob'')]\<rparr>"

definition alice_bob_alice :: "job list" where
  "alice_bob_alice =
     [sample_job ''1'' ''build'' ''alice'' ''phys01'',
      sample_job ''2'' '''' ''bob'' ''PHYS01'',
      sample_job ''3'' ''train'' ''alice'' ''chem02'']"




definition truncated_job :: job where
  "truncated_job =
     [(ascii ''JOBID'', ascii ''7''), (ascii ''NAME'', ascii ''build''), (ascii ''USER'', ascii ''alice'')]"

definition userless_job :: job where
  "userless_job = [(ascii ''JOBID'', ascii ''7'')]"



definition timeless_job :: job where
  "timeless_job =
     [(ascii ''JOBID'', ascii ''8''), (ascii ''NAME'', ascii ''build''), (ascii ''USER'', ascii ''alice''),
      (ascii ''ACCOUNT'', ascii ''phys01''), (ascii ''PARTITION'', ascii ''gp4d''),
      (ascii ''NODES'', ascii ''1''), (ascii ''START_TIME'', ascii ''2024-03-08T10:00:00'')]"

section \<open>Properties of the dictionaries\<close>

lemma split_not_Nil: "split s sep \<noteq> []"
  by (induction s) (auto split: list.splits)

lemma map_of_dict_set: "map_of (dict_set d k v) = (map_of d)(k \<mapsto> v)"
  by (induction d) (auto simp: fun_eq_iff)

lemma dict_set_fresh: "k \<notin> fst ` set d \<Longrightarrow> dict_set d k v = d @ [(k, v)]"
  by (induction d) auto

lemma keys_dict_set:
  "map fst (dict_set d k v) = (if k \<in> set (map fst d) then map fst d else map fst d @ [k])"
proof (induction d)
  case Nil
  then show ?case by simp
next
  case (Cons p d)
  obtain k' v' where p: "p = (k', v')" by (cases p)
  show ?case using Cons.IH by (cases "k' = k") (simp_all add: p)
qed

lemma set_keys_dict_set: "set (map fst (dict_set d k v)) = insert k (set (map fst d))"
  by (simp only: keys_dict_set) auto

lemma foldl_dict_set_distinct:
  "distinct (map fst (d @ ps)) \<Longrightarrow> foldl (\<lambda>d (k, v). dict_set d k v) d ps = d @ ps"
proof (induction ps arbitrary: d)
  case Nil
  then show ?case by simp
next
  case (Cons p ps)
  obtain k v where p: "p = (k, v)" by (cases p)
  from Cons.prems p have fresh: "k \<notin> fst ` set d" by auto
  from Cons.prems p have "distinct (map fst ((d @ [(k, v)]) @ ps))" by auto
  from Cons.IH [OF this] show ?case
    by (simp add: p dict_set_fresh [OF fresh])
qed

lemma dict_comprehension_distinct:
  "distinct (map fst ps) \<Longrightarrow> dict_comprehension ps = ps"
  using foldl_dict_set_distinct [of "[]" ps] by (simp add: dict_comprehension_def)

lemma map_of_foldl_dict_set:
  "map_of (foldl (\<lambda>d (k, v). dict_set d k v) d ps) = map_of (rev ps @ d)"
proof (induction ps arbitrary: d)
  case Nil
  then show ?case by simp
next
  case (Cons p ps)
  obtain k v where p: "p = (k, v)" by (cases p)
  show ?case
    by (simp add: p Cons.IH map_of_dict_set map_add_def fun_eq_iff split: option.splits)
qed

lemma map_of_dict_comprehension: "map_of (dict_comprehension ps) = map_of (rev ps)"
  by (simp add: dict_comprehension_def map_of_foldl_dict_set)

lemma distinct_keys_dict_set:
  "distinct (map fst d) \<Longrightarrow> distinct (map fst (dict_set d k v))"
  by (simp add: keys_dict_set)

lemma distinct_keys_foldl:
  "distinct (map fst d) \<Longrightarrow> distinct (map fst (foldl (\<lambda>d (k, v). dict_set d k v) d ps))"
  by (induction ps arbitrary: d) (auto simp: distinct_keys_dict_set)

lemma distinct_keys_dict_comprehension: "distinct (map fst (dict_comprehension ps))"
  by (simp add: dict_comprehension_def distinct_keys_foldl)

lemma set_keys_foldl:
  "set (map fst (foldl (\<lambda>d (k, v). dict_set d k v) d ps)) =
     set (map fst d) \<union> set (map fst ps)"
proof (induction ps arbitrary: d)
  case Nil
  then show ?case by simp
next
  case (Cons p ps)
  obtain k v where p: "p = (k, v)" by (cases p)
  have "set (map fst (foldl (\<lambda>d (k, v). dict_set d k v) (dict_set d k v) ps)) =
          set (map fst (dict_set d k v)) \<union> set (map fst ps)"
    by (rule Cons.IH)
  then show ?case by (simp only: p foldl_Cons prod.case set_keys_dict_set) auto
qed

lemma set_keys_dict_comprehension:
  "set (map fst (dict_comprehension ps)) = set (map fst ps)"
  using set_keys_foldl [of "[]" ps] by (simp add: dict_comprehension_def)

lemma length_dict_comprehension:
  "length (dict_comprehension ps) = card (set (map fst ps))"
proof -
  have "length (dict_comprehension ps) = length (map fst (dict_comprehension ps))" by simp
  also have "\<dots> = card (set (map fst (dict_comprehension ps)))"
    using distinct_keys_dict_comprehension [of ps] by (simp only: distinct_card)
  finally show ?thesis by (simp only: set_keys_dict_comprehension)
qed

section \<open>Properties of split, join and strip\<close>

lemma split_no_sep: "sep \<notin> set x \<Longrightarrow> split x sep = [x]"
  by (induction x) auto

lemma split_append_sep: "sep \<notin> set x \<Longrightarrow> split (x @ sep # rest) sep = x # split rest sep"
  by (induction x) auto

lemma split_join:
  "xs \<noteq> [] \<Longrightarrow> list_all (\<lambda>x. sep \<notin> set x) xs \<Longrightarrow> split (join sep xs) sep = xs"
proof (induction sep xs rule: join.induct)
  case (1 sep)
  then show ?case by simp
next
  case (2 sep x)
  then show ?case by (simp add: split_no_sep)
next
  case (3 sep x y ys)
  then show ?case by (simp add: split_append_sep)
qed

lemma dropWhile_same_length:
  "length (dropWhile P xs) = length xs \<Longrightarrow> dropWhile P xs = xs"
proof -
  assume len: "length (dropWhile P xs) = length xs"
  have "length (takeWhile P xs) + length (dropWhile P xs) = length xs"
    by (simp only: length_append [symmetric] takeWhile_dropWhile_id)
  with len have "takeWhile P xs = []" by simp
  with takeWhile_dropWhile_id [of P xs] show ?thesis by simp
qed

lemma strip_self_iff:
  "strip t = t \<longleftrightarrow> dropWhile isspace t = t \<and> dropWhile isspace (rev t) = rev t"
proof
  assume st: "strip t = t"
  have l1: "length (dropWhile isspace (rev (dropWhile isspace t))) \<le> length (dropWhile isspace t)"
    using length_dropWhile_le [of isspace "rev (dropWhile isspace t)"] by simp
  have l2: "length (dropWhile isspace t) \<le> length t" by (rule length_dropWhile_le)
  have "length (strip t) = length (dropWhile isspace (rev (dropWhile isspace t)))"
    by (simp add: strip_def)
  with st have "length (dropWhile isspace (rev (dropWhile isspace t))) = length t" by simp
  with l1 l2 have "length (dropWhile isspace t) = length t" by simp
  then have d1: "dropWhile isspace t = t" by (rule dropWhile_same_length)
  from st d1 have "rev (dropWhile isspace (rev t)) = t" by (simp add: strip_def)
  then have "dropWhile isspace (rev t) = rev t" by (metis rev_rev_ident)
  with d1 show "dropWhile isspace t = t \<and> dropWhile isspace (rev t) = rev t" by simp
next
  assume "dropWhile isspace t = t \<and> dropWhile isspace (rev t) = rev t"
  then show "strip t = t" by (simp add: strip_def)
qed

lemma strip_surround:
  assumes ws1: "list_all isspace ws1" and ws2: "list_all isspace ws2" and t: "strip t = t"
  shows "strip (ws1 @ t @ ws2) = t"
proof (cases "t = []")
  case True
  from ws1 ws2 have e: "dropWhile isspace (ws1 @ ws2) = []"
    by (simp only: dropWhile_eq_Nil_conv) (auto simp: list_all_iff)
  show ?thesis unfolding strip_def True append_Nil e by simp
next
  case False
  from t have d1: "dropWhile isspace t = t" and d2: "dropWhile isspace (rev t) = rev t"
    by (simp_all add: strip_self_iff)
  from d1 False have h: "\<not> isspace (hd t)" by (simp add: dropWhile_eq_self_iff)
  from d2 False have l: "\<not> isspace (hd (rev t))" by (simp add: dropWhile_eq_self_iff)
  have "dropWhile isspace (ws1 @ t @ ws2) = dropWhile isspace (t @ ws2)"
    using ws1 by (simp add: list_all_iff)
  also have "\<dots> = t @ ws2" using h False by (simp add: dropWhile_eq_self_iff)
  finally have a: "dropWhile isspace (ws1 @ t @ ws2) = t @ ws2" .
  have "dropWhile isspace (rev ws2 @ rev t) = dropWhile isspace (rev t)"
    using ws2 by (intro dropWhile_append2) (simp add: list_all_iff)
  then have "dropWhile isspace (rev (t @ ws2)) = dropWhile isspace (rev t)"
    by simp
  with d2 have "dropWhile isspace (rev (t @ ws2)) = rev t" by simp
  with a show ?thesis by (simp add: strip_def)
qed

lemma lines_of_table_text:
  assumes "table header rows"
  shows "split (table_text header rows) NEWLINE = map (join PIPE) (header # rows)"
proof -
  have nl: "\<And>fs. list_all plain_field fs \<Longrightarrow> NEWLINE \<notin> set (join PIPE fs)"
  proof -
    fix fs show "list_all plain_field fs \<Longrightarrow> NEWLINE \<notin> set (join PIPE fs)"
      by (induction PIPE fs rule: join.induct) (auto simp: plain_field_def PIPE_def NEWLINE_def)
  qed
  from assms have "list_all (\<lambda>x. NEWLINE \<notin> set x) (map (join PIPE) (header # rows))"
    by (auto simp: table_def list_all_iff nl)
  then show ?thesis unfolding table_text_def by (intro split_join) simp_all
qed

lemma fields_of_line:
  "fs \<noteq> [] \<Longrightarrow> list_all plain_field fs \<Longrightarrow> split (join PIPE fs) PIPE = fs"
  by (rule split_join) (auto simp: list_all_iff plain_field_def)

lemma parse_table:
  assumes tab: "table header rows"
    and ws1: "list_all isspace ws1" and ws2: "list_all isspace ws2"
    and st: "strip (table_text header rows) = table_text header rows"
  shows "parse_squeue_output (ws1 @ table_text header rows @ ws2) =
         Inr (map (\<lambda>row. dict_comprehension (zip header row)) rows)"
proof -
  have s: "strip (ws1 @ table_text header rows @ ws2) = table_text header rows"
    using ws1 ws2 st by (rule strip_surround)
  from tab have h: "split (join PIPE header) PIPE = header"
    by (simp add: table_def fields_of_line)
  from tab have r: "map (\<lambda>l. dict_comprehension (zip header (split l PIPE))) (map (join PIPE) rows)
      = map (\<lambda>row. dict_comprehension (zip header row)) rows"
    by (auto simp: table_def list_all_iff fields_of_line)
  show ?thesis
    by (simp add: parse_squeue_output_def s lines_of_table_text [OF tab] h r Let_def del: map_map)
qed

section \<open>Properties of groupby\<close>


lemma groupby_cases:
  "key x = Inr k \<Longrightarrow>
   groupby (x # xs) key =
     (case groupby xs key of
        ([], err) \<Rightarrow> ([(k, [x])], err)
      | ((k', g) # gs, err) \<Rightarrow>
          if k' = k then ((k, x # g) # gs, err) else ((k, [x]) # (k', g) # gs, err))"
  by simp

lemma groupby_no_error:
  "list_all (\<lambda>x. \<exists>k. key x = Inr k) xs \<Longrightarrow> snd (groupby xs key) = None"
  by (induction xs) (auto split: prod.splits list.splits sum.splits)

lemma groupby_error:
  "snd (groupby xs key) = None \<Longrightarrow> list_all (\<lambda>x. \<exists>k. key x = Inr k) xs"
  by (induction xs) (auto split: prod.splits list.splits sum.splits if_splits)

lemma groupby_concat:
  "snd (groupby xs key) = None \<Longrightarrow> concat (map snd (fst (groupby xs key))) = xs"
  by (induction xs) (auto split: prod.splits list.splits sum.splits if_splits)

lemma groupby_groups:
  "(k, g) \<in> set (fst (groupby xs key)) \<Longrightarrow> g \<noteq> [] \<and> list_all (\<lambda>x. key x = Inr k) g"
proof (induction xs arbitrary: k g)
  case Nil
  then show ?case by simp
next
  case (Cons x xs)
  show ?case
  proof (cases "key x")
    case (Inl e)
    with Cons.prems show ?thesis by simp
  next
    case (Inr kx)
    obtain gs err where r: "groupby xs key = (gs, err)" by (cases "groupby xs key")
    show ?thesis
    proof (cases gs)
      case Nil
      with Cons.prems Inr r show ?thesis by simp
    next
      case (Cons p gs')
      obtain k' g' where p: "p = (k', g')" by (cases p)
      from Cons.IH [of k' g'] r Cons p have first: "g' \<noteq> [] \<and> list_all (\<lambda>x. key x = Inr k') g'" by simp
      have others: "(k, g) \<in> set gs' \<Longrightarrow> g \<noteq> [] \<and> list_all (\<lambda>x. key x = Inr k) g"
        using Cons.IH [of k g] r Cons by simp
      from Cons.prems Inr r Cons p first others show ?thesis
        by (auto split: if_splits)
    qed
  qed
qed

lemma groupby_hd:
  "key x = Inr k \<Longrightarrow> \<exists>g gs. fst (groupby (x # xs) key) = (k, x # g) # gs"
  by (auto split: prod.splits list.splits)

lemma groupby_distinct_adj:
  "distinct_adj (map fst (fst (groupby xs key)))"
proof (induction xs)
  case Nil
  then show ?case by simp
next
  case (Cons x xs)
  then show ?case
    by (auto simp: distinct_adj_Cons split: prod.splits list.splits sum.splits)
qed


subsection \<open>The group of a position\<close>

lemma group_of_mono: "i \<le> j \<Longrightarrow> group_of gs i \<le> group_of gs j"
proof (induction gs arbitrary: i j)
  case Nil
  then show ?case by simp
next
  case (Cons p gs)
  obtain k g where p: "p = (k, g)" by (cases p)
  from Cons.prems have "i - length g \<le> j - length g" by simp
  from Cons.IH [OF this] Cons.prems show ?case by (simp add: p)
qed

lemma group_of_Suc:
  "list_all (\<lambda>p. snd p \<noteq> []) gs \<Longrightarrow> group_of gs (Suc i) \<le> Suc (group_of gs i)"
proof (induction gs arbitrary: i)
  case Nil
  then show ?case by simp
next
  case (Cons p gs)
  obtain k g where p: "p = (k, g)" by (cases p)
  from Cons.prems p have ne: "g \<noteq> []" and rest: "list_all (\<lambda>p. snd p \<noteq> []) gs" by simp_all
  show ?case
  proof (cases "Suc i < length g")
    case True
    then show ?thesis by (simp add: p)
  next
    case False
    show ?thesis
    proof (cases "i < length g")
      case True
      with False have "Suc i - length g = 0" by simp
      moreover have "group_of gs 0 = 0" using rest by (cases gs) auto
      ultimately show ?thesis using True False by (simp add: p)
    next
      case False
      then have "Suc i - length g = Suc (i - length g)" by simp
      with Cons.IH [OF rest, of "i - length g"] False show ?thesis by (simp add: p)
    qed
  qed
qed

lemma group_of_less:
  "i < length (concat (map snd gs)) \<Longrightarrow> group_of gs i < length gs"
proof (induction gs arbitrary: i)
  case Nil
  then show ?case by simp
next
  case (Cons p gs)
  obtain k g where p: "p = (k, g)" by (cases p)
  show ?case
  proof (cases "i < length g")
    case True
    then show ?thesis by (simp add: p)
  next
    case False
    with Cons.prems p have "i - length g < length (concat (map snd gs))" by simp
    from Cons.IH [OF this] False show ?thesis by (simp add: p)
  qed
qed

lemma group_of_key:
  "list_all (\<lambda>p. list_all (\<lambda>x. key x = Inr (fst p)) (snd p)) gs \<Longrightarrow>
   i < length (concat (map snd gs)) \<Longrightarrow>
   key (concat (map snd gs) ! i) = Inr (fst (gs ! group_of gs i))"
proof (induction gs arbitrary: i)
  case Nil
  then show ?case by simp
next
  case (Cons p gs)
  obtain k g where p: "p = (k, g)" by (cases p)
  show ?case
  proof (cases "i < length g")
    case True
    from Cons.prems p have "list_all (\<lambda>x. key x = Inr k) g" by simp
    with True have "key (g ! i) = Inr k" by (simp add: list_all_length)
    with True show ?thesis by (simp add: p nth_append)
  next
    case False
    with Cons.prems p have "i - length g < length (concat (map snd gs))" by simp
    moreover from Cons.prems have "list_all (\<lambda>p. list_all (\<lambda>x. key x = Inr (fst p)) (snd p)) gs"
      by simp
    ultimately have "key (concat (map snd gs) ! (i - length g)) =
        Inr (fst (gs ! group_of gs (i - length g)))"
      by (rule Cons.IH [rotated])
    with False show ?thesis by (simp add: p nth_append)
  qed
qed

lemma groupby_runs:
  assumes ok: "snd (groupby xs key) = None"
  defines "gs \<equiv> fst (groupby xs key)"
  shows "concat (map snd gs) = xs"
    and "Suc i < length xs \<Longrightarrow> key (xs ! i) = key (xs ! Suc i) \<Longrightarrow>
         group_of gs i = group_of gs (Suc i)"
    and "i \<le> j \<Longrightarrow> j < length xs \<Longrightarrow> group_of gs i = group_of gs j \<Longrightarrow>
         key (xs ! j) = key (xs ! i)"
proof -
  show c: "concat (map snd gs) = xs" unfolding gs_def using ok by (rule groupby_concat)
  have ne: "list_all (\<lambda>p. snd p \<noteq> []) gs"
    unfolding gs_def list_all_iff using groupby_groups [of _ _ xs key] by auto
  have keyed: "list_all (\<lambda>p. list_all (\<lambda>x. key x = Inr (fst p)) (snd p)) gs"
    unfolding gs_def list_all_iff using groupby_groups [of _ _ xs key]
    by (auto simp: list_all_iff)
  have adj: "distinct_adj (map fst gs)" unfolding gs_def by (rule groupby_distinct_adj)
  have K: "key (xs ! n) = Inr (fst (gs ! group_of gs n))" if "n < length xs" for n
    using group_of_key [OF keyed, of n] that c by simp
  show "group_of gs i = group_of gs (Suc i)"
    if i: "Suc i < length xs" and eq: "key (xs ! i) = key (xs ! Suc i)"
  proof (rule ccontr)
    assume neq: "group_of gs i \<noteq> group_of gs (Suc i)"
    have "group_of gs i \<le> group_of gs (Suc i)" by (rule group_of_mono) simp
    moreover have "group_of gs (Suc i) \<le> Suc (group_of gs i)" using ne by (rule group_of_Suc)
    ultimately have s: "group_of gs (Suc i) = Suc (group_of gs i)" using neq by simp
    have "group_of gs (Suc i) < length gs" using group_of_less [of "Suc i" gs] i c by simp
    with s have l: "Suc (group_of gs i) < length gs" by simp
    then have "Suc (group_of gs i) < length (map fst gs)" by simp
    from distinct_adj_nth [OF adj this] l s
    have "fst (gs ! group_of gs i) \<noteq> fst (gs ! group_of gs (Suc i))" by simp
    with K [of i] K [of "Suc i"] i eq show False by simp
  qed
  show "key (xs ! j) = key (xs ! i)"
    if "i \<le> j" and "j < length xs" and "group_of gs i = group_of gs j"
    using that K [of i] K [of j] by simp
qed


subsection \<open>Grouping by the user\<close>

lemma USER_key_present:
  "list_all (\<lambda>job. dict_contains job (ascii ''USER'')) jobs \<Longrightarrow>
   list_all (\<lambda>x. \<exists>k. USER_key x = Inr k) jobs"
  by (induction jobs) (auto simp: USER_key_def getitem_def dict_contains_def split: option.splits)

lemma USER_key_field:
  "dict_contains job (ascii ''USER'') \<Longrightarrow> USER_key job = Inr (field job (ascii ''USER''))"
  by (auto simp: USER_key_def getitem_def dict_contains_def field_def)

lemma groupby_three:
  assumes "key x = Inr a" "key y = Inr b" "key z = Inr a" "a \<noteq> b"
  shows "groupby [x, y, z] key = ([(a, [x]), (b, [y]), (a, [z])], None)"
  using assms by simp

lemmas sample_simps = alice_bob_alice_def sample_job_def sample_config_def ascii_def

section \<open>Properties of the formatters\<close>

lemma getitem_present: "dict_contains d k \<Longrightarrow> getitem d k = Inr (field d k)"
  by (auto simp: dict_contains_def getitem_def field_def)


lemma getitem_missing: "\<not> dict_contains d k \<Longrightarrow> getitem d k = Inl (KeyError k)"
  by (simp add: dict_contains_def getitem_def)

lemma getitem_Inr_D: "getitem d k = Inr v \<Longrightarrow> dict_contains d k"
  by (auto simp: dict_contains_def getitem_def split: option.splits)

lemma getitem_Inl_D: "getitem d k = Inl e \<Longrightarrow> e = KeyError k"
  by (auto simp: getitem_def split: option.splits)

lemma with_label_lookup:
  "(if dict_contains d x
    then (case getitem d x of Inl e \<Rightarrow> Inl e | Inr label \<Rightarrow> Inr (p @ x @ ascii ''('' @ label @ ascii '')''))
    else Inr (p @ x)) = Inr (p @ with_label x (map_of d x))"
  by (auto simp: dict_contains_def getitem_def with_label_def split: option.splits)

lemma project_formatter_eq:
  "project_formatter upper config job =
     (case getitem job (ascii ''ACCOUNT'') of
        Inl e \<Rightarrow> Inl e
      | Inr a \<Rightarrow> Inr (PROJECT_ID @ with_label (upper a) (project_label upper config (upper a))))"
  by (simp add: project_formatter_def Let_def with_label_lookup project_label_def
      map_of_dict_comprehension rev_map split: sum.splits)

lemma user_formatter_eq:
  "user_formatter config job =
     (case getitem job (ascii ''USER'') of
        Inl e \<Rightarrow> Inl e
      | Inr x \<Rightarrow> Inr (USER_ID @ with_label x (map_of (user_map config) x)))"
  by (simp add: user_formatter_def Let_def with_label_lookup split: sum.splits)

lemma get_simple_formmatter_eq:
  "dict_contains job field_name \<Longrightarrow>
   get_simple_formmatter display_name field_name job =
     Inr (display_name @ COLON @ field job field_name)"
  by (simp add: get_simple_formmatter_def getitem_present)

lemma complete_D:
  assumes "complete job"
  shows "dict_contains job (ascii ''USER'')" "dict_contains job (ascii ''NAME'')"
    "dict_contains job (ascii ''JOBID'')" "dict_contains job (ascii ''PARTITION'')"
    "dict_contains job (ascii ''NODES'')" "dict_contains job (ascii ''START_TIME'')"
    "dict_contains job (ascii ''TIME'')" "dict_contains job (ascii ''ACCOUNT'')"
  using assms by (simp_all add: complete_def report_fields_def)

lemma apply_formatters_complete:
  assumes "complete job"
  shows "apply_formatters (get_formatters upper config) job =
           Inr (spec_field_list upper config job)"
  using complete_D [OF assms]
  by (simp add: get_formatters_def spec_field_list_def get_simple_formmatter_eq
      project_formatter_eq user_formatter_eq getitem_present)

lemma sample_job_complete: "complete (sample_job jobid name user account)"
  by (simp add: complete_def report_fields_def sample_job_def dict_contains_def ascii_def)

section \<open>Properties of get_blocks\<close>

lemma USER_key_eq: "(\<lambda>x. getitem x (ascii ''USER'')) = USER_key"
  by (simp add: USER_key_def fun_eq_iff)

lemma get_blocks_eq:
  "get_blocks upper now jobs config =
     (case group_blocks (user_map config) (get_formatters upper config)
             (fst (groupby jobs USER_key)) of
        Inl e \<Rightarrow> Inl e
      | Inr appended \<Rightarrow>
          (case snd (groupby jobs USER_key) of
             Some e \<Rightarrow> Inl e
           | None \<Rightarrow> Inr (leading_blocks now @ appended)))"
  by (simp add: get_blocks_def Let_def USER_key_eq leading_blocks_def case_prod_unfold
      split: sum.splits option.splits)

subsection \<open>Complete jobs\<close>

lemma user_label_lookup:
  "(if dict_contains um user
    then (case getitem um user of
            Inl e \<Rightarrow> Inl e
          | Inr label \<Rightarrow> Inr (user @ ascii ''('' @ label @ ascii '')''))
    else Inr user) = Inr (with_label user (map_of um user))"
  by (auto simp: dict_contains_def getitem_def with_label_def split: option.splits)

lemma job_blocks_complete:
  "list_all complete job_group \<Longrightarrow>
   job_blocks (get_formatters upper config) job_group =
     Inr (concat (map (spec_job upper config) job_group))"
proof (induction job_group)
  case Nil
  then show ?case by simp
next
  case (Cons job job_group)
  from Cons.prems have c: "complete job" and r: "list_all complete job_group" by simp_all
  from c have n: "getitem job (ascii ''NAME'') = Inr (field job (ascii ''NAME''))"
    by (simp add: getitem_present complete_D)
  show ?case
    by (simp add: n apply_formatters_complete [OF c] Cons.IH [OF r] spec_job_def)
qed

lemma group_blocks_complete:
  "list_all (\<lambda>ug. list_all complete (snd ug)) groups \<Longrightarrow>
   group_blocks (user_map config) (get_formatters upper config) groups =
     Inr (concat (map (spec_user_group upper config) groups))"
proof (induction groups)
  case Nil
  then show ?case by simp
next
  case (Cons ug groups)
  obtain user job_group where ug: "ug = (user, job_group)" by (cases ug)
  from Cons.prems ug have c: "list_all complete job_group"
    and r: "list_all (\<lambda>ug. list_all complete (snd ug)) groups" by simp_all
  show ?case
    unfolding ug group_blocks.simps user_label_lookup
    by (simp add: job_blocks_complete [OF c] Cons.IH [OF r] spec_user_group_def)
qed

lemma complete_USER_key: "list_all complete jobs \<Longrightarrow> snd (groupby jobs USER_key) = None"
proof (rule groupby_no_error, rule USER_key_present)
  assume "list_all complete jobs"
  then show "list_all (\<lambda>job. dict_contains job (ascii ''USER'')) jobs"
    by (simp add: list_all_iff complete_D)
qed

lemma groups_complete:
  assumes "list_all complete (concat (map snd groups))"
  shows "list_all (\<lambda>ug. list_all complete (snd ug)) groups"
  using assms by (induction groups) simp_all

lemma get_blocks_complete:
  assumes c: "list_all complete jobs"
  shows "get_blocks upper now jobs config =
           Inr (leading_blocks now @
                concat (map (spec_user_group upper config) (fst (groupby jobs USER_key))))"
proof -
  have ok: "snd (groupby jobs USER_key) = None" using c by (rule complete_USER_key)
  have "concat (map snd (fst (groupby jobs USER_key))) = jobs" using ok by (rule groupby_concat)
  with c have "list_all (\<lambda>ug. list_all complete (snd ug)) (fst (groupby jobs USER_key))"
    by (intro groups_complete) simp
  from group_blocks_complete [OF this] ok show ?thesis by (simp add: get_blocks_eq)
qed

subsection \<open>Reports that are returned\<close>

lemma get_simple_formmatter_Inr_D:
  "get_simple_formmatter display_name field_name job = Inr t \<Longrightarrow> dict_contains job field_name"
  by (auto simp: get_simple_formmatter_def dest: getitem_Inr_D split: sum.splits)

lemma project_formatter_Inr_D:
  "project_formatter upper config job = Inr t \<Longrightarrow> dict_contains job (ascii ''ACCOUNT'')"
  by (auto simp: project_formatter_eq dest: getitem_Inr_D split: sum.splits)

lemma user_formatter_Inr_D:
  "user_formatter config job = Inr t \<Longrightarrow> dict_contains job (ascii ''USER'')"
  by (auto simp: user_formatter_eq dest: getitem_Inr_D split: sum.splits)

lemma apply_formatters_Cons_D:
  "apply_formatters (formatter # formatters) job = Inr texts \<Longrightarrow>
   \<exists>t texts'. formatter job = Inr t \<and> apply_formatters formatters job = Inr texts'"
  by (auto split: sum.splits)

lemma apply_formatters_Inr_D:
  assumes "apply_formatters (get_formatters upper config) job = Inr texts"
  shows "complete job"
proof -
  note d = apply_formatters_Cons_D
  from assms [unfolded get_formatters_def] obtain t1 r1 where
    1: "get_simple_formmatter JOB_ID_NAME (ascii ''JOBID'') job = Inr t1"
    and "apply_formatters [get_simple_formmatter JOB_NAME_NAME (ascii ''NAME''),
      get_simple_formmatter PARTITION_NAME (ascii ''PARTITION''),
      get_simple_formmatter NODES_NAME (ascii ''NODES''),
      get_simple_formmatter START_TIME_NAME (ascii ''START_TIME''),
      get_simple_formmatter RUN_TIME_NAME (ascii ''TIME''),
      project_formatter upper config,
      user_formatter config] job = Inr r1"
    by (blast dest: d)
  then obtain t2 r2 where
    2: "get_simple_formmatter JOB_NAME_NAME (ascii ''NAME'') job = Inr t2"
    and "apply_formatters [get_simple_formmatter PARTITION_NAME (ascii ''PARTITION''),
      get_simple_formmatter NODES_NAME (ascii ''NODES''),
      get_simple_formmatter START_TIME_NAME (ascii ''START_TIME''),
      get_simple_formmatter RUN_TIME_NAME (ascii ''TIME''),
      project_formatter upper config,
      user_formatter config] job = Inr r2"
    by (blast dest: d)
  then obtain t3 r3 where
    3: "get_simple_formmatter PARTITION_NAME (ascii ''PARTITION'') job = Inr t3"
    and "apply_formatters [get_simple_formmatter NODES_NAME (ascii ''NODES''),
      get_simple_formmatter START_TIME_NAME (ascii ''START_TIME''),
      get_simple_formmatter RUN_TIME_NAME (ascii ''TIME''),
      project_formatter upper config,
      user_formatter config] job = Inr r3"
    by (blast dest: d)
  then obtain t4 r4 where
    4: "get_simple_formmatter NODES_NAME (ascii ''NODES'') job = Inr t4"
    and "apply_formatters [get_simple_formmatter START_TIME_NAME (ascii ''START_TIME''),
      get_simple_formmatter RUN_TIME_NAME (ascii ''TIME''),
      project_formatter upper config,
      user_formatter config] job = Inr r4"
    by (blast dest: d)
  then obtain t5 r5 where
    5: "get_simple_formmatter START_TIME_NAME (ascii ''START_TIME'') job = Inr t5"
    and "apply_formatters [get_simple_formmatter RUN_TIME_NAME (ascii ''TIME''),
      project_formatter upper config,
      user_formatter config] job = Inr r5"
    by (blast dest: d)
  then obtain t6 r6 where
    6: "get_simple_formmatter RUN_TIME_NAME (ascii ''TIME'') job = Inr t6"
    and "apply_formatters [project_formatter upper config, user_formatter config] job = Inr r6"
    by (blast dest: d)
  then obtain t7 r7 where
    7: "project_formatter upper config job = Inr t7"
    and "apply_formatters [user_formatter config] job = Inr r7"
    by (blast dest: d)
  then obtain t8 where 8: "user_formatter config job = Inr t8"
    by (blast dest: d)
  from 1 2 3 4 5 6 show ?thesis
    unfolding complete_def report_fields_def
    using project_formatter_Inr_D [OF 7] user_formatter_Inr_D [OF 8]
    by (simp add: get_simple_formmatter_Inr_D)
qed

lemma job_blocks_Inr_D:
  "job_blocks (get_formatters upper config) job_group = Inr blocks \<Longrightarrow>
   list_all complete job_group"
proof (induction job_group arbitrary: blocks)
  case Nil
  then show ?case by simp
next
  case (Cons job job_group)
  from Cons.prems obtain texts blocks' where
    "apply_formatters (get_formatters upper config) job = Inr texts"
    and "job_blocks (get_formatters upper config) job_group = Inr blocks'"
    by (auto split: sum.splits)
  then show ?case using Cons.IH by (simp add: apply_formatters_Inr_D)
qed

lemma group_blocks_Inr_D:
  "group_blocks um (get_formatters upper config) groups = Inr blocks \<Longrightarrow>
   list_all complete (concat (map snd groups))"
proof (induction groups arbitrary: blocks)
  case Nil
  then show ?case by simp
next
  case (Cons ug groups)
  obtain user job_group where ug: "ug = (user, job_group)" by (cases ug)
  from Cons.prems [unfolded ug group_blocks.simps user_label_lookup] obtain jblocks blocks' where
    "job_blocks (get_formatters upper config) job_group = Inr jblocks"
    and "group_blocks um (get_formatters upper config) groups = Inr blocks'"
    by (auto split: sum.splits)
  then show ?case using Cons.IH by (simp add: ug job_blocks_Inr_D)
qed

lemma get_blocks_Inr_D:
  assumes "get_blocks upper now jobs config = Inr blocks"
  shows "list_all complete jobs"
proof -
  from assms obtain appended where
    g: "group_blocks (user_map config) (get_formatters upper config)
          (fst (groupby jobs USER_key)) = Inr appended"
    and ok: "snd (groupby jobs USER_key) = None"
    by (auto simp: get_blocks_eq split: sum.splits option.splits)
  from group_blocks_Inr_D [OF g] groupby_concat [OF ok] show ?thesis by simp
qed


subsection \<open>The timestamp\<close>




subsection \<open>Counting the jobs of a report\<close>

lemma count_spec_job: "length (filter is_job_fields (spec_job upper config job)) = 1"
  by (simp add: spec_job_def is_job_fields_def)

lemma count_spec_jobs:
  "length (filter is_job_fields (concat (map (spec_job upper config) job_group))) =
     length job_group"
  by (induction job_group) (simp_all add: count_spec_job)

lemma count_spec_user_group:
  "length (filter is_job_fields (spec_user_group upper config ug)) = length (snd ug)"
  by (simp add: spec_user_group_def count_spec_jobs is_job_fields_def)

lemma count_spec_user_groups:
  "length (filter is_job_fields (concat (map (spec_user_group upper config) groups))) =
     length (concat (map snd groups))"
  by (induction groups) (simp_all add: count_spec_user_group)

lemma count_leading_blocks: "filter is_job_fields (leading_blocks now) = []"
  by (simp add: leading_blocks_def is_job_fields_def)

subsection \<open>Errors\<close>

lemma getitem_error:
  "getitem job k = Inl e \<Longrightarrow> e = KeyError k \<and> \<not> dict_contains job k"
  by (auto simp: getitem_def dict_contains_def split: option.splits)

lemma formatter_error:
  assumes "formatter \<in> set (get_formatters upper config)" "formatter job = Inl e"
  shows "\<exists>k. e = KeyError k \<and> k \<in> set report_fields \<and> \<not> dict_contains job k"
proof -
  have simple: "\<exists>k. e = KeyError k \<and> k \<in> set report_fields \<and> \<not> dict_contains job k"
    if "get_simple_formmatter display_name field_name job = Inl e"
      and "field_name \<in> set report_fields" for display_name field_name
    using that by (auto simp: get_simple_formmatter_def dest: getitem_error split: sum.splits)
  have fields: "ascii ''JOBID'' \<in> set report_fields" "ascii ''NAME'' \<in> set report_fields"
    "ascii ''PARTITION'' \<in> set report_fields" "ascii ''NODES'' \<in> set report_fields"
    "ascii ''START_TIME'' \<in> set report_fields" "ascii ''TIME'' \<in> set report_fields"
    "ascii ''ACCOUNT'' \<in> set report_fields" "ascii ''USER'' \<in> set report_fields"
    by (simp_all add: report_fields_def)
  from assms(1) consider
    (jobid) "formatter = get_simple_formmatter JOB_ID_NAME (ascii ''JOBID'')"
    | (name) "formatter = get_simple_formmatter JOB_NAME_NAME (ascii ''NAME'')"
    | (partition) "formatter = get_simple_formmatter PARTITION_NAME (ascii ''PARTITION'')"
    | (nodes) "formatter = get_simple_formmatter NODES_NAME (ascii ''NODES'')"
    | (start) "formatter = get_simple_formmatter START_TIME_NAME (ascii ''START_TIME'')"
    | (time) "formatter = get_simple_formmatter RUN_TIME_NAME (ascii ''TIME'')"
    | (project) "formatter = project_formatter upper config"
    | (user) "formatter = user_formatter config"
    unfolding get_formatters_def by (simp only: list.set insert_iff empty_iff) blast
  then show ?thesis
  proof cases
    case jobid
    with assms(2) show ?thesis by (intro simple [OF _ fields(1)]) simp
  next
    case name
    with assms(2) show ?thesis by (intro simple [OF _ fields(2)]) simp
  next
    case partition
    with assms(2) show ?thesis by (intro simple [OF _ fields(3)]) simp
  next
    case nodes
    with assms(2) show ?thesis by (intro simple [OF _ fields(4)]) simp
  next
    case start
    with assms(2) show ?thesis by (intro simple [OF _ fields(5)]) simp
  next
    case time
    with assms(2) show ?thesis by (intro simple [OF _ fields(6)]) simp
  next
    case project
    with assms(2) fields(7) show ?thesis
      by (auto simp: project_formatter_eq dest: getitem_error split: sum.splits)
  next
    case user
    with assms(2) fields(8) show ?thesis
      by (auto simp: user_formatter_eq dest: getitem_error split: sum.splits)
  qed
qed

lemma apply_formatters_error:
  "apply_formatters formatters job = Inl e \<Longrightarrow>
   \<exists>formatter \<in> set formatters. formatter job = Inl e"
  by (induction formatters arbitrary: e) (auto split: sum.splits)

lemma job_blocks_error:
  "job_blocks (get_formatters upper config) job_group = Inl e \<Longrightarrow>
   \<exists>k. e = KeyError k \<and> k \<in> set report_fields \<and>
       (\<exists>job \<in> set job_group. \<not> dict_contains job k)"
proof (induction job_group)
  case Nil
  then show ?case by simp
next
  case (Cons job job_group)
  from Cons.prems consider
    (name) "getitem job (ascii ''NAME'') = Inl e"
    | (fields) "apply_formatters (get_formatters upper config) job = Inl e"
    | (rest) "job_blocks (get_formatters upper config) job_group = Inl e"
    by (auto split: sum.splits)
  then show ?case
  proof cases
    case name
    have "ascii ''NAME'' \<in> set report_fields" by (simp add: report_fields_def)
    with getitem_error [OF name] show ?thesis by auto
  next
    case fields
    from apply_formatters_error [OF this] formatter_error [of _ upper config job e]
    show ?thesis by auto
  next
    case rest
    from Cons.IH [OF this] show ?thesis by auto
  qed
qed

lemma group_blocks_error:
  "group_blocks um (get_formatters upper config) groups = Inl e \<Longrightarrow>
   \<exists>k. e = KeyError k \<and> k \<in> set report_fields \<and>
       (\<exists>job \<in> set (concat (map snd groups)). \<not> dict_contains job k)"
proof (induction groups)
  case Nil
  then show ?case by simp
next
  case (Cons ug groups)
  obtain user job_group where ug: "ug = (user, job_group)" by (cases ug)
  from Cons.prems [unfolded ug group_blocks.simps user_label_lookup] consider
    (jobs) "job_blocks (get_formatters upper config) job_group = Inl e"
    | (rest) "group_blocks um (get_formatters upper config) groups = Inl e"
    by (auto split: sum.splits)
  then show ?case
  proof cases
    case jobs
    from job_blocks_error [OF this] show ?thesis by (auto simp: ug)
  next
    case rest
    from Cons.IH [OF this] show ?thesis by auto
  qed
qed

lemma groupby_subset: "set (concat (map snd (fst (groupby xs key)))) \<subseteq> set xs"
  by (induction xs) (fastforce split: prod.splits list.splits sum.splits if_splits)+

lemma groupby_key_error:
  "snd (groupby xs key) = Some e \<Longrightarrow> \<exists>x \<in> set xs. key x = Inl e"
  by (induction xs) (auto split: prod.splits list.splits sum.splits if_splits)

lemma get_blocks_error:
  assumes "get_blocks upper now jobs config = Inl e"
  shows "\<exists>k. e = KeyError k \<and> k \<in> set report_fields \<and>
           (\<exists>job \<in> set jobs. \<not> dict_contains job k)"
proof -
  from assms consider
    (groups) "group_blocks (user_map config) (get_formatters upper config)
                (fst (groupby jobs USER_key)) = Inl e"
    | (key) "snd (groupby jobs USER_key) = Some e"
    by (auto simp: get_blocks_eq split: sum.splits option.splits)
  then show ?thesis
  proof cases
    case groups
    from group_blocks_error [OF this] groupby_subset [of jobs USER_key] show ?thesis by blast
  next
    case key
    have "ascii ''USER'' \<in> set report_fields" by (simp add: report_fields_def)
    with groupby_key_error [OF key] show ?thesis
      by (auto simp: USER_key_def dest: getitem_error)
  qed
qed

subsection \<open>The sample records\<close>

lemma alice_bob_alice_complete: "list_all complete alice_bob_alice"
  by (simp add: alice_bob_alice_def sample_job_complete)



lemma USER_key_Inr_D: "USER_key job = Inr k \<Longrightarrow> field job (ascii ''USER'') = k"
  by (auto simp: USER_key_def getitem_def field_def split: option.splits)

subsection \<open>The job nodes of a report\<close>

lemma filter_spec_job:
  "filter is_job_fields (spec_job upper config job) =
     [SectionFields (spec_field_list upper config job)]"
  by (simp add: spec_job_def is_job_fields_def)

lemma filter_spec_jobs:
  "filter is_job_fields (concat (map (spec_job upper config) job_group)) =
     map (\<lambda>job. SectionFields (spec_field_list upper config job)) job_group"
  by (induction job_group) (simp_all add: filter_spec_job)

lemma filter_spec_user_group:
  "filter is_job_fields (spec_user_group upper config ug) =
     map (\<lambda>job. SectionFields (spec_field_list upper config job)) (snd ug)"
  by (simp add: spec_user_group_def filter_spec_jobs is_job_fields_def)

lemma filter_spec_user_groups:
  "filter is_job_fields (concat (map (spec_user_group upper config) groups)) =
     map (\<lambda>job. SectionFields (spec_field_list upper config job)) (concat (map snd groups))"
  by (induction groups) (simp_all add: filter_spec_user_group)

subsection \<open>Reports of incomplete records\<close>

lemma get_blocks_single_error:
  assumes u: "USER_key job = Inr user"
    and nu: "\<not> dict_contains (user_map config) user"
    and n: "getitem job (ascii ''NAME'') = Inr name"
    and a: "apply_formatters (get_formatters upper config) job = Inl e"
  shows "get_blocks upper now [job] config = Inl e"
proof -
  have g: "groupby [job] USER_key = ([(user, [job])], None)" by (simp add: u)
  have j: "job_blocks (get_formatters upper config) [job] = Inl e" by (simp add: n a)
  have gb: "group_blocks (user_map config) (get_formatters upper config) [(user, [job])] = Inl e"
    by (simp only: group_blocks.simps nu if_False j sum.case)
  show ?thesis by (simp only: get_blocks_eq g fst_conv snd_conv gb sum.case)
qed

section \<open>The claims about parse_squeue_output\<close>

text \<open>
  The header line and the data lines of an input are the lines of the stripped text:
  the first one and the others. The facts used to evaluate the functions on literals:
\<close>

lemmas eval_simps = ascii_def strip_def isspace_def NEWLINE_def PIPE_def

lemma parse_lines:
  "split (strip output) NEWLINE = header_line # data_lines \<Longrightarrow>
   parse_squeue_output output =
     Inr (map (\<lambda>l. dict_comprehension (zip (split header_line PIPE) (split l PIPE))) data_lines)"
  by (simp add: parse_squeue_output_def)

text \<open>
  C1, as the code has it: for every input whose data lines all have as many fields as
  the header line, and whose header names are pairwise distinct, the parser returns one
  record per data line, and each record has the header's names as its keys, in the
  header's order, the \<open>i\<close>-th name bound to the \<open>i\<close>-th field of the line.
\<close>

theorem parse_well_formed:
  assumes lines: "split (strip output) NEWLINE = header_line # data_lines"
    and same: "list_all (\<lambda>l. length (split l PIPE) = length (split header_line PIPE)) data_lines"
    and dist: "distinct (split header_line PIPE)"
  shows "\<exists>records. parse_squeue_output output = Inr records \<and>
           length records = length data_lines \<and>
           (\<forall>i<length data_lines.
              map fst (records ! i) = split header_line PIPE \<and>
              map snd (records ! i) = split (data_lines ! i) PIPE)"
proof -
  let ?header = "split header_line PIPE"
  let ?records = "map (\<lambda>l. dict_comprehension (zip ?header (split l PIPE))) data_lines"
  have "map fst (?records ! i) = ?header \<and> map snd (?records ! i) = split (data_lines ! i) PIPE"
    if i: "i < length data_lines" for i
  proof -
    from same i have len: "length (split (data_lines ! i) PIPE) = length ?header"
      by (simp add: list_all_length)
    with dist have "distinct (map fst (zip ?header (split (data_lines ! i) PIPE)))"
      by simp
    then have "?records ! i = zip ?header (split (data_lines ! i) PIPE)"
      using i by (simp add: dict_comprehension_distinct)
    with len show ?thesis by simp
  qed
  with parse_lines [OF lines] show ?thesis by simp
qed

text \<open>The theorem on a header of three columns and two data lines, the second with an empty name.\<close>

theorem parse_well_formed_witness:
  "split (strip sample_output) NEWLINE =
     [ascii ''JOBID|NAME|USER'', ascii ''1|build|alice'', ascii ''2||bob''] \<and>
   distinct (split (ascii ''JOBID|NAME|USER'') PIPE) \<and>
   (\<exists>records. parse_squeue_output sample_output = Inr records \<and> length records = 2 \<and>
      map fst (records ! 1) = [ascii ''JOBID'', ascii ''NAME'', ascii ''USER''] \<and>
      map snd (records ! 1) = [ascii ''2'', [], ascii ''bob''])"
proof -
  have lines: "split (strip sample_output) NEWLINE =
      ascii ''JOBID|NAME|USER'' # [ascii ''1|build|alice'', ascii ''2||bob'']"
    by (simp add: sample_output_def eval_simps)
  have same: "list_all (\<lambda>l. length (split l PIPE) = length (split (ascii ''JOBID|NAME|USER'') PIPE))
      [ascii ''1|build|alice'', ascii ''2||bob'']"
    by (simp add: eval_simps)
  have dist: "distinct (split (ascii ''JOBID|NAME|USER'') PIPE)"
    by (simp add: eval_simps)
  from parse_well_formed [OF lines same dist] obtain records where
    r: "parse_squeue_output sample_output = Inr records" "length records = 2"
       "map fst (records ! 1) = split (ascii ''JOBID|NAME|USER'') PIPE"
       "map snd (records ! 1) = split ([ascii ''1|build|alice'', ascii ''2||bob''] ! 1) PIPE"
    by auto
  have "split (ascii ''JOBID|NAME|USER'') PIPE = [ascii ''JOBID'', ascii ''NAME'', ascii ''USER'']"
    by (simp add: eval_simps)
  moreover have "split ([ascii ''1|build|alice'', ascii ''2||bob''] ! 1) PIPE =
      [ascii ''2'', [], ascii ''bob'']"
    by (simp add: eval_simps)
  ultimately show ?thesis using lines dist r by auto
qed

text \<open>
  C1 as stated fails when two columns of the header have the same name: the data line
  \<open>1|2|3\<close> under the header \<open>A|A|B\<close> has as many fields as the header, and its record
  has the two keys \<open>A\<close> and \<open>B\<close>, not the header's three names.
\<close>

theorem parse_duplicate_header_columns:
  "split (strip duplicate_output) NEWLINE = [ascii ''A|A|B'', ascii ''1|2|3''] \<and>
   length (split (ascii ''1|2|3'') PIPE) = length (split (ascii ''A|A|B'') PIPE) \<and>
   parse_squeue_output duplicate_output =
     Inr [[(ascii ''A'', ascii ''2''), (ascii ''B'', ascii ''3'')]] \<and>
   map fst [(ascii ''A'', ascii ''2''), (ascii ''B'', ascii ''3'')] \<noteq> split (ascii ''A|A|B'') PIPE"
  by (simp add: duplicate_output_def parse_squeue_output_def dict_comprehension_def eval_simps)

text \<open>
  C2, as the code has it: \<open>parse_squeue_output\<close> raises for no input text at all,
  whatever the data lines hold; \<open>split\<close> never returns an empty list, so \<open>lines[0]\<close>
  always exists.
\<close>

theorem parse_squeue_output_never_raises:
  "\<exists>jobs. parse_squeue_output output = Inr jobs"
  using split_not_Nil [of "strip output" NEWLINE]
  by (auto simp: parse_squeue_output_def Let_def split: list.splits)

text \<open>
  C2 as stated fails on the empty input: the claim has the parser fail there, the code
  returns the empty list of records.
\<close>

theorem parse_squeue_output_empty_input:
  "parse_squeue_output [] = Inr []"
  by (simp add: parse_squeue_output_def strip_def)

text \<open>
  C3, as the code has it: a data line with any number of fields yields a record, and
  \<open>zip\<close> stops at the shorter of the header and the line. The record never has more
  entries than the line has fields (no padding) nor than the header has names (the
  surplus fields of a longer line are dropped); its keys are the first names of the
  header, as many as the line has fields; and under a header of distinct names it is
  the positional pairing of the names with the fields.
\<close>

theorem parse_irregular_rows:
  assumes lines: "split (strip output) NEWLINE = header_line # data_lines"
  shows "\<exists>records. parse_squeue_output output = Inr records \<and>
           length records = length data_lines \<and>
           (\<forall>i<length data_lines.
              length (records ! i) \<le>
                min (length (split header_line PIPE)) (length (split (data_lines ! i) PIPE)) \<and>
              set (map fst (records ! i)) =
                set (take (length (split (data_lines ! i) PIPE)) (split header_line PIPE)) \<and>
              (distinct (split header_line PIPE) \<longrightarrow>
                 records ! i = zip (split header_line PIPE) (split (data_lines ! i) PIPE)))"
proof -
  let ?header = "split header_line PIPE"
  let ?records = "map (\<lambda>l. dict_comprehension (zip ?header (split l PIPE))) data_lines"
  have "length (?records ! i) \<le> min (length ?header) (length (split (data_lines ! i) PIPE)) \<and>
        set (map fst (?records ! i)) = set (take (length (split (data_lines ! i) PIPE)) ?header) \<and>
        (distinct ?header \<longrightarrow> ?records ! i = zip ?header (split (data_lines ! i) PIPE))"
    if i: "i < length data_lines" for i
  proof -
    let ?row = "split (data_lines ! i) PIPE"
    have r: "?records ! i = dict_comprehension (zip ?header ?row)" using i by simp
    have "card (set (map fst (zip ?header ?row))) \<le> length (map fst (zip ?header ?row))"
      by (rule card_length)
    then have a: "length (?records ! i) \<le> min (length ?header) (length ?row)"
      by (simp only: r length_dict_comprehension) simp
    have b: "set (map fst (?records ! i)) = set (take (length ?row) ?header)"
      by (simp only: r set_keys_dict_comprehension map_fst_zip_take) (simp add: min_def)
    have c: "?records ! i = zip ?header ?row" if "distinct ?header"
    proof -
      from that have "distinct (map fst (zip ?header ?row))"
        by (simp add: map_fst_zip_take)
      then show ?thesis by (simp only: r dict_comprehension_distinct)
    qed
    from a b c show ?thesis by blast
  qed
  with parse_lines [OF lines] show ?thesis by simp
qed

text \<open>The theorem on a header of two columns, a line of three fields and a line of one.\<close>

theorem parse_irregular_rows_witness:
  "split (strip irregular_output) NEWLINE = [ascii ''A|B'', ascii ''1|2|3'', ascii ''1''] \<and>
   (\<exists>records. parse_squeue_output irregular_output = Inr records \<and> length records = 2 \<and>
      records ! 0 = [(ascii ''A'', ascii ''1''), (ascii ''B'', ascii ''2'')] \<and>
      records ! 1 = [(ascii ''A'', ascii ''1'')])"
proof -
  have lines: "split (strip irregular_output) NEWLINE =
      ascii ''A|B'' # [ascii ''1|2|3'', ascii ''1'']"
    by (simp add: irregular_output_def eval_simps)
  have dist: "distinct (split (ascii ''A|B'') PIPE)"
    by (simp add: eval_simps)
  from parse_irregular_rows [OF lines] dist obtain records where
    r: "parse_squeue_output irregular_output = Inr records" "length records = 2"
       "records ! 0 = zip (split (ascii ''A|B'') PIPE) (split ([ascii ''1|2|3'', ascii ''1''] ! 0) PIPE)"
       "records ! 1 = zip (split (ascii ''A|B'') PIPE) (split ([ascii ''1|2|3'', ascii ''1''] ! 1) PIPE)"
    by auto
  have "zip (split (ascii ''A|B'') PIPE) (split ([ascii ''1|2|3'', ascii ''1''] ! 0) PIPE) =
      [(ascii ''A'', ascii ''1''), (ascii ''B'', ascii ''2'')]"
    by (simp add: eval_simps)
  moreover have "zip (split (ascii ''A|B'') PIPE) (split ([ascii ''1|2|3'', ascii ''1''] ! 1) PIPE) =
      [(ascii ''A'', ascii ''1'')]"
    by (simp add: eval_simps)
  ultimately show ?thesis using lines r by auto
qed

text \<open>
  C3 as stated fails on the longer line: the line \<open>1|2|3\<close> under the header \<open>A|B\<close>
  yields a record of the two entries of the header, and its third field is dropped, where
  the claim has extra entries and no truncation.
\<close>

theorem parse_longer_row_truncated:
  "split (strip irregular_output) NEWLINE = [ascii ''A|B'', ascii ''1|2|3'', ascii ''1''] \<and>
   split (ascii ''A|B'') PIPE = [ascii ''A'', ascii ''B''] \<and>
   split (ascii ''1|2|3'') PIPE = [ascii ''1'', ascii ''2'', ascii ''3''] \<and>
   parse_squeue_output irregular_output =
     Inr [[(ascii ''A'', ascii ''1''), (ascii ''B'', ascii ''2'')], [(ascii ''A'', ascii ''1'')]]"
  by (simp add: irregular_output_def parse_squeue_output_def dict_comprehension_def eval_simps)

text \<open>
  C10: when two columns of the header have the same name, every record holds each name
  once, bound to the field of the last column of that name that the line reaches
  (\<open>map_of (rev ps)\<close> finds the last pair of a key), and has fewer entries than the
  header has columns, also when the line has as many fields as the header.
\<close>

theorem parse_duplicate_columns:
  assumes lines: "split (strip output) NEWLINE = header_line # data_lines"
    and dup: "\<not> distinct (split header_line PIPE)"
  shows "\<exists>records. parse_squeue_output output = Inr records \<and>
           length records = length data_lines \<and>
           (\<forall>i<length data_lines.
              distinct (map fst (records ! i)) \<and>
              map_of (records ! i) =
                map_of (rev (zip (split header_line PIPE) (split (data_lines ! i) PIPE))) \<and>
              length (records ! i) < length (split header_line PIPE))"
proof -
  let ?header = "split header_line PIPE"
  let ?records = "map (\<lambda>l. dict_comprehension (zip ?header (split l PIPE))) data_lines"
  have "distinct (map fst (?records ! i)) \<and>
        map_of (?records ! i) = map_of (rev (zip ?header (split (data_lines ! i) PIPE))) \<and>
        length (?records ! i) < length ?header"
    if i: "i < length data_lines" for i
  proof -
    let ?row = "split (data_lines ! i) PIPE"
    let ?keys = "take (min (length ?header) (length ?row)) ?header"
    have r: "?records ! i = dict_comprehension (zip ?header ?row)" using i by simp
    have len: "length (?records ! i) = card (set ?keys)"
      by (simp only: r length_dict_comprehension map_fst_zip_take)
    have "card (set ?keys) < length ?header"
    proof (cases "length ?row < length ?header")
      case True
      have "card (set ?keys) \<le> length ?keys" by (rule card_length)
      with True show ?thesis by simp
    next
      case False
      then have "?keys = ?header" by simp
      moreover have "card (set ?header) \<noteq> length ?header"
        using dup card_distinct [of ?header] by auto
      moreover have "card (set ?header) \<le> length ?header" by (rule card_length)
      ultimately show ?thesis by simp
    qed
    with len show ?thesis
      by (simp only: r distinct_keys_dict_comprehension map_of_dict_comprehension simp_thms)
  qed
  with parse_lines [OF lines] show ?thesis by simp
qed

text \<open>The theorem on the header \<open>A|A|B\<close> and the line \<open>1|2|3\<close>: \<open>A\<close> is bound to \<open>2\<close>.\<close>

theorem parse_duplicate_columns_witness:
  "split (strip duplicate_output) NEWLINE = [ascii ''A|A|B'', ascii ''1|2|3''] \<and>
   \<not> distinct (split (ascii ''A|A|B'') PIPE) \<and>
   (\<exists>records. parse_squeue_output duplicate_output = Inr records \<and> length records = 1 \<and>
      map_of (records ! 0) (ascii ''A'') = Some (ascii ''2'') \<and>
      length (records ! 0) < 3)"
proof -
  have lines: "split (strip duplicate_output) NEWLINE = ascii ''A|A|B'' # [ascii ''1|2|3'']"
    by (simp add: duplicate_output_def eval_simps)
  have dup: "\<not> distinct (split (ascii ''A|A|B'') PIPE)"
    by (simp add: eval_simps)
  from parse_duplicate_columns [OF lines dup] obtain records where
    r: "parse_squeue_output duplicate_output = Inr records" "length records = 1"
       "map_of (records ! 0) =
          map_of (rev (zip (split (ascii ''A|A|B'') PIPE) (split ([ascii ''1|2|3''] ! 0) PIPE)))"
       "length (records ! 0) < length (split (ascii ''A|A|B'') PIPE)"
    by auto
  have "map_of (rev (zip (split (ascii ''A|A|B'') PIPE) (split ([ascii ''1|2|3''] ! 0) PIPE)))
      (ascii ''A'') = Some (ascii ''2'')"
    by (simp add: eval_simps)
  moreover have "length (split (ascii ''A|A|B'') PIPE) = 3"
    by (simp add: eval_simps)
  ultimately show ?thesis using lines dup r by auto
qed

section \<open>The claims about the groups of the report\<close>

text \<open>
  Claim C4. The user groups of the report are the contiguous runs of records with the
  same \<open>USER\<close> value, not a global re-bucketing. \<open>get_blocks\<close> returns a report exactly
  when every record has the eight fields the report reads. For every such sequence of
  records the report is the three leading blocks followed by one user group (a section
  for the user, the nodes of the jobs, a divider) per group of \<open>groups\<close>, where: the
  concatenation of the groups is the sequence of records; no group is empty and the
  label of a group is the \<open>USER\<close> value of each of its records; two consecutive groups
  have different labels. Hence two adjacent records are in the same group exactly when
  their \<open>USER\<close> values are equal; two records with a record of a different \<open>USER\<close>
  value between them are in distinct groups, even when their own \<open>USER\<close> values are
  equal; and three records of the users a, b, a (a different from b) yield three
  groups, for a, b and a, in that order.
\<close>

theorem user_groups_contiguous:
  "(list_all complete jobs \<longleftrightarrow> (\<exists>blocks. get_blocks upper now jobs config = Inr blocks)) \<and>
   (list_all complete jobs \<longrightarrow>
      (\<exists>groups.
         get_blocks upper now jobs config =
           Inr (leading_blocks now @ concat (map (spec_user_group upper config) groups)) \<and>
         groupby jobs USER_key = (groups, None) \<and>
         concat (map snd groups) = jobs \<and>
         list_all (\<lambda>ug. snd ug \<noteq> [] \<and>
                     list_all (\<lambda>job. field job (ascii ''USER'') = fst ug) (snd ug)) groups \<and>
         distinct_adj (map fst groups) \<and>
         (\<forall>i. Suc i < length jobs \<longrightarrow>
              (group_of groups i = group_of groups (Suc i) \<longleftrightarrow>
               field (jobs ! i) (ascii ''USER'') = field (jobs ! Suc i) (ascii ''USER''))) \<and>
         (\<forall>i j k. i < j \<and> j < k \<and> k < length jobs \<and>
              field (jobs ! j) (ascii ''USER'') \<noteq> field (jobs ! i) (ascii ''USER'') \<longrightarrow>
              group_of groups i \<noteq> group_of groups k) \<and>
         (\<forall>x y z. jobs = [x, y, z] \<and>
              field x (ascii ''USER'') \<noteq> field y (ascii ''USER'') \<and>
              field z (ascii ''USER'') = field x (ascii ''USER'') \<longrightarrow>
              groups = [(field x (ascii ''USER''), [x]), (field y (ascii ''USER''), [y]),
                        (field x (ascii ''USER''), [z])])))"
proof (intro conjI impI)
  show "list_all complete jobs \<longleftrightarrow> (\<exists>blocks. get_blocks upper now jobs config = Inr blocks)"
    using get_blocks_complete [of jobs upper now config] get_blocks_Inr_D [of upper now jobs config]
    by blast
next
  assume c: "list_all complete jobs"
  define groups where "groups = fst (groupby jobs USER_key)"
  have present: "list_all (\<lambda>job. dict_contains job (ascii ''USER'')) jobs"
    using c by (simp add: list_all_iff complete_D)
  have ok: "snd (groupby jobs USER_key) = None" using c by (rule complete_USER_key)
  have g: "groupby jobs USER_key = (groups, None)"
    using ok by (simp add: groups_def prod_eq_iff)
  have b: "get_blocks upper now jobs config =
      Inr (leading_blocks now @ concat (map (spec_user_group upper config) groups))"
    unfolding groups_def using c by (rule get_blocks_complete)
  have K: "USER_key (jobs ! n) = Inr (field (jobs ! n) (ascii ''USER''))" if "n < length jobs" for n
    using present that by (simp add: list_all_length USER_key_field)
  have cc: "concat (map snd groups) = jobs"
    unfolding groups_def using ok by (rule groupby_runs)
  have labelled: "list_all (\<lambda>ug. snd ug \<noteq> [] \<and>
      list_all (\<lambda>job. field job (ascii ''USER'') = fst ug) (snd ug)) groups"
    unfolding list_all_iff
  proof
    fix ug assume "ug \<in> set groups"
    then have "(fst ug, snd ug) \<in> set (fst (groupby jobs USER_key))" by (simp add: groups_def)
    from groupby_groups [OF this]
    show "snd ug \<noteq> [] \<and> (\<forall>job \<in> set (snd ug). field job (ascii ''USER'') = fst ug)"
      by (auto simp: list_all_iff dest: USER_key_Inr_D)
  qed
  have adj: "distinct_adj (map fst groups)" unfolding groups_def by (rule groupby_distinct_adj)
  have same: "group_of groups i = group_of groups (Suc i) \<longleftrightarrow>
      field (jobs ! i) (ascii ''USER'') = field (jobs ! Suc i) (ascii ''USER'')"
    if i: "Suc i < length jobs" for i
  proof
    assume "group_of groups i = group_of groups (Suc i)"
    then have "USER_key (jobs ! Suc i) = USER_key (jobs ! i)"
      using groupby_runs(3) [OF ok, of i "Suc i"] i by (simp add: groups_def)
    with K [of i] K [of "Suc i"] i
    show "field (jobs ! i) (ascii ''USER'') = field (jobs ! Suc i) (ascii ''USER'')" by simp
  next
    assume "field (jobs ! i) (ascii ''USER'') = field (jobs ! Suc i) (ascii ''USER'')"
    with K [of i] K [of "Suc i"] i have "USER_key (jobs ! i) = USER_key (jobs ! Suc i)" by simp
    with groupby_runs(2) [OF ok i] show "group_of groups i = group_of groups (Suc i)"
      by (simp add: groups_def)
  qed
  have sep: "group_of groups i \<noteq> group_of groups k"
    if "i < j" "j < k" "k < length jobs"
      and ne: "field (jobs ! j) (ascii ''USER'') \<noteq> field (jobs ! i) (ascii ''USER'')" for i j k
  proof
    assume eq: "group_of groups i = group_of groups k"
    have "group_of groups i \<le> group_of groups j" using that by (intro group_of_mono) simp
    moreover have "group_of groups j \<le> group_of groups k" using that by (intro group_of_mono) simp
    ultimately have "group_of groups i = group_of groups j" using eq by simp
    moreover have "i \<le> j" "j < length jobs" using that by simp_all
    ultimately have "USER_key (jobs ! j) = USER_key (jobs ! i)"
      using groupby_runs(3) [OF ok, of i j] by (simp add: groups_def)
    with K [of i] K [of j] that show False by simp
  qed
  have three: "groups = [(field x (ascii ''USER''), [x]), (field y (ascii ''USER''), [y]),
                          (field x (ascii ''USER''), [z])]"
    if j: "jobs = [x, y, z]" and "field x (ascii ''USER'') \<noteq> field y (ascii ''USER'')"
      and "field z (ascii ''USER'') = field x (ascii ''USER'')" for x y z
  proof -
    from present j have "USER_key x = Inr (field x (ascii ''USER''))"
      "USER_key y = Inr (field y (ascii ''USER''))" "USER_key z = Inr (field x (ascii ''USER''))"
      using that(3) by (simp_all add: USER_key_field)
    then have "groupby [x, y, z] USER_key =
        ([(field x (ascii ''USER''), [x]), (field y (ascii ''USER''), [y]),
          (field x (ascii ''USER''), [z])], None)"
      using that(2) by (intro groupby_three)
    then show ?thesis by (simp add: groups_def j)
  qed
  show "\<exists>groups.
         get_blocks upper now jobs config =
           Inr (leading_blocks now @ concat (map (spec_user_group upper config) groups)) \<and>
         groupby jobs USER_key = (groups, None) \<and>
         concat (map snd groups) = jobs \<and>
         list_all (\<lambda>ug. snd ug \<noteq> [] \<and>
                     list_all (\<lambda>job. field job (ascii ''USER'') = fst ug) (snd ug)) groups \<and>
         distinct_adj (map fst groups) \<and>
         (\<forall>i. Suc i < length jobs \<longrightarrow>
              (group_of groups i = group_of groups (Suc i) \<longleftrightarrow>
               field (jobs ! i) (ascii ''USER'') = field (jobs ! Suc i) (ascii ''USER''))) \<and>
         (\<forall>i j k. i < j \<and> j < k \<and> k < length jobs \<and>
              field (jobs ! j) (ascii ''USER'') \<noteq> field (jobs ! i) (ascii ''USER'') \<longrightarrow>
              group_of groups i \<noteq> group_of groups k) \<and>
         (\<forall>x y z. jobs = [x, y, z] \<and>
              field x (ascii ''USER'') \<noteq> field y (ascii ''USER'') \<and>
              field z (ascii ''USER'') = field x (ascii ''USER'') \<longrightarrow>
              groups = [(field x (ascii ''USER''), [x]), (field y (ascii ''USER''), [y]),
                        (field x (ascii ''USER''), [z])])"
  proof (intro exI [of _ groups] conjI allI impI)
    show "get_blocks upper now jobs config =
           Inr (leading_blocks now @ concat (map (spec_user_group upper config) groups))"
      by (rule b)
    show "groupby jobs USER_key = (groups, None)" by (rule g)
    show "concat (map snd groups) = jobs" by (rule cc)
    show "list_all (\<lambda>ug. snd ug \<noteq> [] \<and>
        list_all (\<lambda>job. field job (ascii ''USER'') = fst ug) (snd ug)) groups" by (rule labelled)
    show "distinct_adj (map fst groups)" by (rule adj)
    show "group_of groups i = group_of groups (Suc i) \<longleftrightarrow>
        field (jobs ! i) (ascii ''USER'') = field (jobs ! Suc i) (ascii ''USER'')"
      if "Suc i < length jobs" for i using that by (rule same)
    show "group_of groups i \<noteq> group_of groups k"
      if "i < j \<and> j < k \<and> k < length jobs \<and>
          field (jobs ! j) (ascii ''USER'') \<noteq> field (jobs ! i) (ascii ''USER'')" for i j k
      using that sep [of i j k] by simp
    show "groups = [(field x (ascii ''USER''), [x]), (field y (ascii ''USER''), [y]),
                    (field x (ascii ''USER''), [z])]"
      if "jobs = [x, y, z] \<and>
          field x (ascii ''USER'') \<noteq> field y (ascii ''USER'') \<and>
          field z (ascii ''USER'') = field x (ascii ''USER'')" for x y z
      using that three [of x y z] by simp
  qed
qed

text \<open>The records of alice, bob and alice give a report with three user groups.\<close>

theorem user_groups_contiguous_witness:
  "list_all complete alice_bob_alice \<and>
   get_blocks ascii_upper sample_time alice_bob_alice sample_config =
     Inr (leading_blocks sample_time @
          spec_user_group ascii_upper sample_config
            (ascii ''alice'', [sample_job ''1'' ''build'' ''alice'' ''phys01'']) @
          spec_user_group ascii_upper sample_config
            (ascii ''bob'', [sample_job ''2'' '''' ''bob'' ''PHYS01'']) @
          spec_user_group ascii_upper sample_config
            (ascii ''alice'', [sample_job ''3'' ''train'' ''alice'' ''chem02'']))"
proof -
  from user_groups_contiguous [of alice_bob_alice ascii_upper sample_time sample_config]
    alice_bob_alice_complete
  obtain groups where
    b: "get_blocks ascii_upper sample_time alice_bob_alice sample_config =
          Inr (leading_blocks sample_time @
               concat (map (spec_user_group ascii_upper sample_config) groups))"
    and three: "\<forall>x y z. alice_bob_alice = [x, y, z] \<and>
                field x (ascii ''USER'') \<noteq> field y (ascii ''USER'') \<and>
                field z (ascii ''USER'') = field x (ascii ''USER'') \<longrightarrow>
                groups = [(field x (ascii ''USER''), [x]), (field y (ascii ''USER''), [y]),
                          (field x (ascii ''USER''), [z])]"
    by blast
  from three [unfolded alice_bob_alice_def] have
    "groups = [(ascii ''alice'', [sample_job ''1'' ''build'' ''alice'' ''phys01'']),
               (ascii ''bob'', [sample_job ''2'' '''' ''bob'' ''PHYS01'']),
               (ascii ''alice'', [sample_job ''3'' ''train'' ''alice'' ''chem02''])]"
    by (simp add: field_def sample_job_def ascii_def)
  with b alice_bob_alice_complete show ?thesis by simp
qed

text \<open>
  Without the restriction to records that have the fields the report reads, the claim
  fails: two adjacent records of alice followed by a record with no \<open>USER\<close> field make
  \<open>get_blocks\<close> raise the \<open>KeyError\<close> of the key function, so the two records land in no
  user group at all.
\<close>

theorem user_groups_need_complete_records:
  "field (sample_job ''1'' ''build'' ''alice'' ''phys01'') (ascii ''USER'') =
     field (sample_job ''2'' ''train'' ''alice'' ''phys01'') (ascii ''USER'') \<and>
   get_blocks ascii_upper sample_time
     [sample_job ''1'' ''build'' ''alice'' ''phys01'', sample_job ''2'' ''train'' ''alice'' ''phys01'',
      userless_job] sample_config = Inl (KeyError (ascii ''USER''))"
proof -
  have u: "USER_key (sample_job ''1'' ''build'' ''alice'' ''phys01'') = Inr (ascii ''alice'')"
    "USER_key (sample_job ''2'' ''train'' ''alice'' ''phys01'') = Inr (ascii ''alice'')"
    "USER_key userless_job = Inl (KeyError (ascii ''USER''))"
    by (simp_all add: USER_key_def getitem_def sample_job_def userless_job_def ascii_def)
  have g: "groupby [sample_job ''1'' ''build'' ''alice'' ''phys01'',
      sample_job ''2'' ''train'' ''alice'' ''phys01'', userless_job] USER_key =
    ([(ascii ''alice'', [sample_job ''1'' ''build'' ''alice'' ''phys01'',
        sample_job ''2'' ''train'' ''alice'' ''phys01''])], Some (KeyError (ascii ''USER'')))"
    by (simp add: u)
  have "list_all (\<lambda>ug. list_all complete (snd ug))
      [(ascii ''alice'', [sample_job ''1'' ''build'' ''alice'' ''phys01'',
        sample_job ''2'' ''train'' ''alice'' ''phys01''])]"
    by (simp add: sample_job_complete)
  then have gb: "group_blocks (user_map sample_config) (get_formatters ascii_upper sample_config)
      [(ascii ''alice'', [sample_job ''1'' ''build'' ''alice'' ''phys01'',
        sample_job ''2'' ''train'' ''alice'' ''phys01''])] =
      Inr (concat (map (spec_user_group ascii_upper sample_config)
        [(ascii ''alice'', [sample_job ''1'' ''build'' ''alice'' ''phys01'',
          sample_job ''2'' ''train'' ''alice'' ''phys01''])]))"
    by (rule group_blocks_complete)
  have "get_blocks ascii_upper sample_time
     [sample_job ''1'' ''build'' ''alice'' ''phys01'', sample_job ''2'' ''train'' ''alice'' ''phys01'',
      userless_job] sample_config = Inl (KeyError (ascii ''USER''))"
    by (simp only: get_blocks_eq g fst_conv snd_conv gb sum.case option.case)
  then show ?thesis by (simp add: field_def sample_job_def ascii_def)
qed

text \<open>
  Claim C5. The report builder filters nothing. \<open>get_blocks\<close> returns a report exactly
  when every record has the eight fields the report reads; and in every report it
  returns, the nodes with the fields of a job (one per job node, after the title of
  the job) are those of the input records, one for each record and in the order of
  the records, so their number is the number of records. The report is the leading
  blocks followed by the user groups of a sequence of groups whose concatenation is
  the sequence of records, and the job nodes of each user group are those of the
  records of the group: every record is rendered once, in exactly one user group.
\<close>

theorem no_filtering:
  "(list_all complete jobs \<longleftrightarrow> (\<exists>blocks. get_blocks upper now jobs config = Inr blocks)) \<and>
   (\<forall>blocks. get_blocks upper now jobs config = Inr blocks \<longrightarrow>
      length (filter is_job_fields blocks) = length jobs \<and>
      filter is_job_fields blocks =
        map (\<lambda>job. SectionFields (spec_field_list upper config job)) jobs \<and>
      (\<exists>groups.
         concat (map snd groups) = jobs \<and>
         blocks = leading_blocks now @ concat (map (spec_user_group upper config) groups) \<and>
         list_all (\<lambda>ug. filter is_job_fields (spec_user_group upper config ug) =
                         map (\<lambda>job. SectionFields (spec_field_list upper config job)) (snd ug))
           groups))"
proof (intro conjI allI impI)
  show "list_all complete jobs \<longleftrightarrow> (\<exists>blocks. get_blocks upper now jobs config = Inr blocks)"
    using get_blocks_complete [of jobs upper now config] get_blocks_Inr_D [of upper now jobs config]
    by blast
next
  fix blocks
  assume r: "get_blocks upper now jobs config = Inr blocks"
  then have c: "list_all complete jobs" by (rule get_blocks_Inr_D)
  define groups where "groups = fst (groupby jobs USER_key)"
  have ok: "snd (groupby jobs USER_key) = None" using c by (rule complete_USER_key)
  have cc: "concat (map snd groups) = jobs" unfolding groups_def using ok by (rule groupby_concat)
  have b: "blocks = leading_blocks now @ concat (map (spec_user_group upper config) groups)"
    using r get_blocks_complete [OF c, of upper now config] by (simp add: groups_def)
  show f: "filter is_job_fields blocks =
      map (\<lambda>job. SectionFields (spec_field_list upper config job)) jobs"
    by (simp add: b count_leading_blocks filter_spec_user_groups cc)
  show "length (filter is_job_fields blocks) = length jobs" by (simp add: f)
  show "\<exists>groups.
         concat (map snd groups) = jobs \<and>
         blocks = leading_blocks now @ concat (map (spec_user_group upper config) groups) \<and>
         list_all (\<lambda>ug. filter is_job_fields (spec_user_group upper config ug) =
                         map (\<lambda>job. SectionFields (spec_field_list upper config job)) (snd ug))
           groups"
    using cc b by (intro exI [of _ groups]) (simp add: filter_spec_user_group list_all_iff)
qed

text \<open>The three records of alice, bob and alice give three job nodes.\<close>

theorem no_filtering_witness:
  "list_all complete alice_bob_alice \<and>
   (\<exists>blocks. get_blocks ascii_upper sample_time alice_bob_alice sample_config = Inr blocks \<and>
      length (filter is_job_fields blocks) = 3 \<and>
      filter is_job_fields blocks =
        [SectionFields (spec_field_list ascii_upper sample_config
           (sample_job ''1'' ''build'' ''alice'' ''phys01'')),
         SectionFields (spec_field_list ascii_upper sample_config
           (sample_job ''2'' '''' ''bob'' ''PHYS01'')),
         SectionFields (spec_field_list ascii_upper sample_config
           (sample_job ''3'' ''train'' ''alice'' ''chem02''))])"
proof -
  note n = no_filtering [of alice_bob_alice ascii_upper sample_time sample_config]
  from n alice_bob_alice_complete obtain blocks where
    b: "get_blocks ascii_upper sample_time alice_bob_alice sample_config = Inr blocks" by blast
  with n have l: "length (filter is_job_fields blocks) = length alice_bob_alice"
    and f: "filter is_job_fields blocks =
      map (\<lambda>job. SectionFields (spec_field_list ascii_upper sample_config job)) alice_bob_alice"
    by blast+
  have 3: "length alice_bob_alice = 3" by (simp add: alice_bob_alice_def)
  from f have f': "filter is_job_fields blocks =
        [SectionFields (spec_field_list ascii_upper sample_config
           (sample_job ''1'' ''build'' ''alice'' ''phys01'')),
         SectionFields (spec_field_list ascii_upper sample_config
           (sample_job ''2'' '''' ''bob'' ''PHYS01'')),
         SectionFields (spec_field_list ascii_upper sample_config
           (sample_job ''3'' ''train'' ''alice'' ''chem02''))]"
    by (simp add: alice_bob_alice_def)
  from alice_bob_alice_complete b l [unfolded 3] f' show ?thesis
    by (intro conjI exI [of _ blocks])
qed

text \<open>
  Without the restriction to the reports that are returned, the claim fails: for one
  record that lacks the \<open>PARTITION\<close> field \<open>get_blocks\<close> raises a \<open>KeyError\<close>, so the
  output has no job node for the record.
\<close>

theorem incomplete_record_no_job_node:
  "get_blocks ascii_upper sample_time [truncated_job] sample_config =
     Inl (KeyError (ascii ''PARTITION''))"
proof (rule get_blocks_single_error)
  show "USER_key truncated_job = Inr (ascii ''alice'')"
    by (simp add: USER_key_def getitem_def truncated_job_def ascii_def)
  show "\<not> dict_contains (user_map sample_config) (ascii ''alice'')"
    by (simp add: sample_config_def dict_contains_def ascii_def)
  show "getitem truncated_job (ascii ''NAME'') = Inr (ascii ''build'')"
    by (simp add: getitem_def truncated_job_def ascii_def)
  show "apply_formatters (get_formatters ascii_upper sample_config) truncated_job =
      Inl (KeyError (ascii ''PARTITION''))"
    by (simp add: get_formatters_def get_simple_formmatter_def getitem_def truncated_job_def
        ascii_def)
qed

section \<open>The claims about the formatters\<close>





section \<open>The claims about the report\<close>

text \<open>
  Claim C8. The first six formatters of \<open>get_formatters\<close> are the simple formatters, of
  the fields \<open>JOBID\<close>, \<open>NAME\<close>, \<open>PARTITION\<close>, \<open>NODES\<close>, \<open>START_TIME\<close> and \<open>TIME\<close>. Applied
  to a record that lacks its field, a simple formatter raises the \<open>KeyError\<close> of that
  field. When a record of the input lacks one of the six fields, \<open>get_blocks\<close> returns
  no report: it raises a \<open>KeyError\<close>, of a field that the report reads and that some
  record lacks; and when the field is the only one missing from the records, the
  \<open>KeyError\<close> is that of the field. The missing field is never omitted or defaulted.
\<close>

theorem missing_field_raises:
  "take 6 (get_formatters upper config) =
     map (\<lambda>(display_name, field_name). get_simple_formmatter display_name field_name)
       simple_formatters \<and>
   (\<not> dict_contains job field_name \<longrightarrow>
      get_simple_formmatter display_name field_name job = Inl (KeyError field_name)) \<and>
   (job \<in> set jobs \<and> field_name \<in> set (map snd simple_formatters) \<and>
    \<not> dict_contains job field_name \<longrightarrow>
      (\<exists>k. get_blocks upper now jobs config = Inl (KeyError k) \<and> k \<in> set report_fields \<and>
           (\<exists>job' \<in> set jobs. \<not> dict_contains job' k))) \<and>
   (job \<in> set jobs \<and> field_name \<in> set (map snd simple_formatters) \<and>
    \<not> dict_contains job field_name \<and>
    (\<forall>job' \<in> set jobs. \<forall>k \<in> set report_fields. k \<noteq> field_name \<longrightarrow> dict_contains job' k) \<longrightarrow>
      get_blocks upper now jobs config = Inl (KeyError field_name))"
proof -
  have raises: "\<exists>k. get_blocks upper now jobs config = Inl (KeyError k) \<and> k \<in> set report_fields \<and>
           (\<exists>job' \<in> set jobs. \<not> dict_contains job' k)"
    if h: "job \<in> set jobs \<and> field_name \<in> set (map snd simple_formatters) \<and>
      \<not> dict_contains job field_name" for job field_name
  proof -
    from h have "field_name \<in> set report_fields"
      by (auto simp: simple_formatters_def report_fields_def)
    with h have "\<not> complete job" by (auto simp: complete_def list_all_iff)
    with h have "\<not> list_all complete jobs" by (auto simp: list_all_iff)
    then have "\<forall>blocks. get_blocks upper now jobs config \<noteq> Inr blocks"
      using get_blocks_Inr_D [of upper now jobs config] by blast
    then obtain e where e: "get_blocks upper now jobs config = Inl e"
      by (cases "get_blocks upper now jobs config") auto
    from get_blocks_error [OF e] e show ?thesis by auto
  qed
  show ?thesis
  proof (intro conjI impI)
    show "take 6 (get_formatters upper config) =
       map (\<lambda>(display_name, field_name). get_simple_formmatter display_name field_name)
         simple_formatters"
      by (simp add: get_formatters_def simple_formatters_def)
  next
    assume "\<not> dict_contains job field_name"
    then show "get_simple_formmatter display_name field_name job = Inl (KeyError field_name)"
      by (simp add: get_simple_formmatter_def getitem_missing)
  next
    assume "job \<in> set jobs \<and> field_name \<in> set (map snd simple_formatters) \<and>
      \<not> dict_contains job field_name"
    then show "\<exists>k. get_blocks upper now jobs config = Inl (KeyError k) \<and> k \<in> set report_fields \<and>
           (\<exists>job' \<in> set jobs. \<not> dict_contains job' k)" by (rule raises)
  next
    assume h: "job \<in> set jobs \<and> field_name \<in> set (map snd simple_formatters) \<and>
      \<not> dict_contains job field_name \<and>
      (\<forall>job' \<in> set jobs. \<forall>k \<in> set report_fields. k \<noteq> field_name \<longrightarrow> dict_contains job' k)"
    then have "job \<in> set jobs \<and> field_name \<in> set (map snd simple_formatters) \<and>
      \<not> dict_contains job field_name" by simp
    from raises [OF this] obtain k job' where
      e: "get_blocks upper now jobs config = Inl (KeyError k)"
      and k: "k \<in> set report_fields" and j: "job' \<in> set jobs" "\<not> dict_contains job' k"
      by blast
    from h k j have "k = field_name" by blast
    with e show "get_blocks upper now jobs config = Inl (KeyError field_name)" by simp
  qed
qed

text \<open>A record without the \<open>TIME\<close> field, after a complete record.\<close>

theorem missing_field_raises_witness:
  "timeless_job \<in> set [sample_job ''1'' ''build'' ''alice'' ''phys01'', timeless_job] \<and>
   ascii ''TIME'' \<in> set (map snd simple_formatters) \<and>
   \<not> dict_contains timeless_job (ascii ''TIME'') \<and>
   get_simple_formmatter RUN_TIME_NAME (ascii ''TIME'') timeless_job =
     Inl (KeyError (ascii ''TIME'')) \<and>
   get_blocks ascii_upper sample_time
     [sample_job ''1'' ''build'' ''alice'' ''phys01'', timeless_job] sample_config =
     Inl (KeyError (ascii ''TIME''))"
proof -
  note m = missing_field_raises [of ascii_upper sample_config timeless_job "ascii ''TIME''"
      RUN_TIME_NAME "[sample_job ''1'' ''build'' ''alice'' ''phys01'', timeless_job]" sample_time]
  have 1: "timeless_job \<in> set [sample_job ''1'' ''build'' ''alice'' ''phys01'', timeless_job]"
    by simp
  have 2: "ascii ''TIME'' \<in> set (map snd simple_formatters)"
    by (simp add: simple_formatters_def)
  have 3: "\<not> dict_contains timeless_job (ascii ''TIME'')"
    by (simp add: timeless_job_def dict_contains_def ascii_def)
  have 4: "\<forall>job' \<in> set [sample_job ''1'' ''build'' ''alice'' ''phys01'', timeless_job].
      \<forall>k \<in> set report_fields. k \<noteq> ascii ''TIME'' \<longrightarrow> dict_contains job' k"
    by (simp add: report_fields_def dict_contains_def sample_job_def timeless_job_def ascii_def)
  from m 3 have 5: "get_simple_formmatter RUN_TIME_NAME (ascii ''TIME'') timeless_job =
     Inl (KeyError (ascii ''TIME''))" by blast
  from m 1 2 3 4 have 6: "get_blocks ascii_upper sample_time
     [sample_job ''1'' ''build'' ''alice'' ''phys01'', timeless_job] sample_config =
     Inl (KeyError (ascii ''TIME''))" by blast
  from 1 2 3 5 6 show ?thesis by (intro conjI)
qed




end
